theory Spec2Isabelle
  imports Complex_Main
begin

section \<open>Exceptions and array primitives\<close>

text \<open>
  The exception classes that the fitting code raises, catches or lets through.
  Messages are dropped: no \<^verbatim>\<open>except\<close> clause of the source looks at them.
  The two galsim classes are the library's own: \<open>GalSimError\<close> derives from
  \<open>RuntimeError\<close>, and its value errors (range errors, incompatible image
  shapes) derive from both \<open>RuntimeError\<close> and \<open>ValueError\<close>.
  \<open>NotImplementedError\<close> derives from \<open>RuntimeError\<close> in Python.
\<close>

datatype error =
    GMixRangeError
  | RuntimeError
  | ValueError
  | IndexError
  | ZeroDivisionError
  | NotImplementedError
  | GalSimError
  | GalSimValueError

text \<open>\<^verbatim>\<open>except RuntimeError\<close> and \<^verbatim>\<open>except ValueError\<close> as predicates on the class.\<close>

fun is_RuntimeError :: "error \<Rightarrow> bool" where
  "is_RuntimeError RuntimeError = True"
| "is_RuntimeError NotImplementedError = True"
| "is_RuntimeError GalSimError = True"
| "is_RuntimeError GalSimValueError = True"
| "is_RuntimeError _ = False"

fun is_ValueError :: "error \<Rightarrow> bool" where
  "is_ValueError ValueError = True"
| "is_ValueError GalSimValueError = True"
| "is_ValueError _ = False"

text \<open>
  \<^verbatim>\<open>try: ... except RuntimeError as err: raise GMixRangeError(str(err))\<close> and the
  same for \<open>ValueError\<close>, applied to the outcome of the guarded block.
\<close>

definition except_RuntimeError :: "error + 'a \<Rightarrow> error + 'a" where
  "except_RuntimeError r =
     (case r of
        Inl e \<Rightarrow> if is_RuntimeError e then Inl GMixRangeError else Inl e
      | Inr v \<Rightarrow> Inr v)"

definition except_ValueError :: "error + 'a \<Rightarrow> error + 'a" where
  "except_ValueError r =
     (case r of
        Inl e \<Rightarrow> if is_ValueError e then Inl GMixRangeError else Inl e
      | Inr v \<Rightarrow> Inr v)"

text \<open>
  Python floats are modelled as reals, numpy arrays and galsim images as flat
  lists in row-major order (what \<open>ravel()\<close> yields), so that \<open>.size\<close> is the
  length.  Reading \<open>xs[i]\<close> with a non-negative index raises \<open>IndexError\<close>
  out of range.
\<close>

definition getitem :: "'a list \<Rightarrow> nat \<Rightarrow> error + 'a" where
  "getitem xs i = (if i < length xs then Inr (xs ! i) else Inl IndexError)"

text \<open>
  numpy's \<open>a[lo:hi] = v\<close> on a one-dimensional array: the slice is clipped to the
  array, \<open>v\<close> must have the slice's length or a single element (which is
  broadcast), anything else raises \<open>ValueError\<close>.  The array never changes its
  length.
\<close>

definition setslice :: "'a list \<Rightarrow> nat \<Rightarrow> nat \<Rightarrow> 'a list \<Rightarrow> error + 'a list" where
  "setslice a lo hi v =
     (let n = length a; l = min lo n; h = max l (min hi n); k = h - l in
      if length v = k then Inr (take l a @ v @ drop h a)
      else if length v = 1 then Inr (take l a @ replicate k (hd v) @ drop h a)
      else Inl ValueError)"

text \<open>\<open>a[lo:hi] = x\<close> for a scalar \<open>x\<close>: every element of the clipped slice is set.\<close>

definition setslice_scalar :: "'a list \<Rightarrow> nat \<Rightarrow> nat \<Rightarrow> 'a \<Rightarrow> 'a list" where
  "setslice_scalar a lo hi x =
     (let n = length a; l = min lo n; h = max l (min hi n) in
      take l a @ replicate (h - l) x @ drop h a)"

text \<open>\<open>a[i] = x\<close> with a non-negative index.\<close>

definition setitem :: "'a list \<Rightarrow> nat \<Rightarrow> 'a \<Rightarrow> error + 'a list" where
  "setitem a i x = (if i < length a then Inr (a[i := x]) else Inl IndexError)"

text \<open>
  Element-wise in-place arithmetic between two arrays of one observation
  (\<open>a *= b\<close>, \<open>a -= b\<close>, \<open>a[:, :] = b[:, :]\<close>).  The two-dimensional shape is
  abstracted to the size; operands of different size are an error of the class
  given (numpy: \<open>ValueError\<close>; galsim images: its incompatible-values error).
\<close>

definition inplace :: "error \<Rightarrow> ('a \<Rightarrow> 'b \<Rightarrow> 'a) \<Rightarrow> 'a list \<Rightarrow> 'b list \<Rightarrow> error + 'a list" where
  "inplace err f a b = (if length b = length a then Inr (map2 f a b) else Inl err)"


section \<open>Model variant registry\<close>

text \<open>\<open>get_galsim_npars(model, nband)\<close>; the band count is a Python integer.\<close>

definition get_galsim_npars :: "string \<Rightarrow> int \<Rightarrow> error + int" where
  "get_galsim_npars model nband =
     (if model \<in> set [''exp'', ''dev'', ''gauss''] then Inr (5 + nband)
      else if model \<in> set [''spergel'', ''moffat''] then Inr (6 + nband)
      else Inl ValueError)"


section \<open>Data model\<close>

text \<open>
  The three fitting classes (the base class and its two subclasses, which
  override the model class, the round model, the band slice and the prior-term
  count) and the galsim profile classes they instantiate.
\<close>

datatype fit_class = GalsimFitModel | GalsimSpergelFitModel | GalsimMoffatFitModel

datatype galsim_class = Exponential | DeVaucouleurs | Gaussian | Spergel | Moffat

text \<open>
  The external renderer (galsim), a parameter of the model.  Every call may
  raise.  \<open>gs_new cls x r50 flux\<close> is the constructor call
  \<open>cls([x,] half_light_radius=r50, flux=flux)\<close>, with \<open>x\<close> the positional
  argument of Spergel (nu) and Moffat (beta).  Drawing rasterizes a profile into
  a target image in place: it overwrites every pixel, so its outcome is the
  value of each pixel, which depends on the profile and on the target's
  geometry (its bounds and scale, a value of type \<open>'g\<close>) and size.
  \<open>gs_drawKImage_inplace\<close> is \<open>_drawKImage\<close>, which leaves the geometry
  as it is; the public \<open>drawKImage(image=...)\<close> may change the geometry of the
  image it is given (galsim recentres its bounds) and so yields the new
  geometry too.
\<close>

record ('p, 'g) renderer =
  gs_new :: "galsim_class \<Rightarrow> real option \<Rightarrow> real \<Rightarrow> real \<Rightarrow> error + 'p"
  gs_shear :: "'p \<Rightarrow> real \<Rightarrow> real \<Rightarrow> error + 'p"
  gs_shift :: "'p \<Rightarrow> real list \<Rightarrow> error + 'p"
  gs_drawKImage_inplace :: "'p \<Rightarrow> 'g \<Rightarrow> nat \<Rightarrow> error + (nat \<Rightarrow> complex)"
  gs_drawKImage :: "'p \<Rightarrow> 'g \<Rightarrow> nat \<Rightarrow> error + 'g \<times> (nat \<Rightarrow> complex)"

text \<open>
  A Fourier-space observation as the observation module delivers it: the data
  image with its geometry, the weight image and the PSF image when
  \<open>has_psf()\<close> holds.
\<close>

record 'g kobs_data =
  kimage :: "complex list"
  kgeom :: 'g
  weight :: "real list"
  psf :: "complex list option"

text \<open>
  The same with the entries that \<open>_init_model_images\<close> adds to \<open>meta\<close>.  The
  model image \<open>kmodel\<close> carries its own geometry, a copy of the data image's
  at first.  (The scratch image has one as well, which nothing reads.)
\<close>

record 'g kobs = "'g kobs_data" +
  ierr :: "real list"
  kmodel :: "complex list"
  kmodel_geom :: 'g
  scratch :: "complex list"

text \<open>
  The external prior object: for a parameter vector it yields its penalty terms
  (by position) or raises.
\<close>

type_synonym prior_t = "real list \<Rightarrow> error + (nat \<Rightarrow> real)"

text \<open>The attributes of a fit model; \<open>band_pars\<close> is \<open>_band_pars\<close>.\<close>

record 'g fit_model =
  fit_cls :: fit_class
  model :: string
  model_class :: galsim_class
  prior :: "prior_t option"
  mb_kobs :: "'g kobs list list"
  nband :: nat
  n_prior_pars :: nat
  totpix :: nat
  fdiff_size :: nat
  npars :: int
  band_pars :: "real list"


section \<open>Model renderer adapter\<close>

text \<open>
  \<open>make_round_model\<close> of the base class and its overrides in the Spergel and
  Moffat classes.
\<close>

definition make_round_model ::
  "('p, 'g) renderer \<Rightarrow> fit_class \<Rightarrow> galsim_class \<Rightarrow> real list \<Rightarrow> error + 'p" where
  "make_round_model R c mc pars =
     (case c of
        GalsimFitModel \<Rightarrow>
          (case getitem pars 4 of Inl e \<Rightarrow> Inl e | Inr r50 \<Rightarrow>
          (case getitem pars 5 of Inl e \<Rightarrow> Inl e | Inr flux \<Rightarrow>
             if r50 < 1 / 10000 then Inl GMixRangeError
             else except_RuntimeError (gs_new R mc None r50 flux)))
      | GalsimSpergelFitModel \<Rightarrow>
          (case getitem pars 4 of Inl e \<Rightarrow> Inl e | Inr r50 \<Rightarrow>
          (case getitem pars 5 of Inl e \<Rightarrow> Inl e | Inr nu \<Rightarrow>
          (case getitem pars 6 of Inl e \<Rightarrow> Inl e | Inr flux \<Rightarrow>
             except_RuntimeError (gs_new R Spergel (Some nu) r50 flux))))
      | GalsimMoffatFitModel \<Rightarrow>
          (case getitem pars 4 of Inl e \<Rightarrow> Inl e | Inr r50 \<Rightarrow>
          (case getitem pars 5 of Inl e \<Rightarrow> Inl e | Inr beta \<Rightarrow>
          (case getitem pars 6 of Inl e \<Rightarrow> Inl e | Inr flux \<Rightarrow>
             except_RuntimeError (gs_new R Moffat (Some beta) r50 flux)))))"

definition make_model ::
  "('p, 'g) renderer \<Rightarrow> fit_class \<Rightarrow> galsim_class \<Rightarrow> real list \<Rightarrow> error + 'p" where
  "make_model R c mc pars =
     (case make_round_model R c mc pars of Inl e \<Rightarrow> Inl e | Inr gal \<Rightarrow>
     (let shift = take 2 pars in
     (case getitem pars 2 of Inl e \<Rightarrow> Inl e | Inr g1 \<Rightarrow>
     (case getitem pars 3 of Inl e \<Rightarrow> Inl e | Inr g2 \<Rightarrow>
     (case except_ValueError (gs_shear R gal g1 g2) of Inl e \<Rightarrow> Inl e | Inr gal' \<Rightarrow>
        gs_shift R gal' shift)))))"

definition set_model_class :: "fit_class \<Rightarrow> string \<Rightarrow> error + galsim_class" where
  "set_model_class c mdl =
     (case c of
        GalsimFitModel \<Rightarrow>
          (if mdl = ''exp'' then Inr Exponential
           else if mdl = ''dev'' then Inr DeVaucouleurs
           else if mdl = ''gauss'' then Inr Gaussian
           else Inl NotImplementedError)
      | GalsimSpergelFitModel \<Rightarrow> Inr Spergel
      | GalsimMoffatFitModel \<Rightarrow> Inr Moffat)"


section \<open>Parameter packing\<close>

text \<open>
  \<open>get_band_pars\<close> writes into the reusable buffer \<open>_band_pars\<close> and returns
  that buffer.  The model returns the exception, if any, and the buffer as the
  call leaves it; \<open>k\<close> is the number of shared leading parameters (5 in the base
  class, 6 in the overrides).
\<close>

definition band_pars_into ::
  "nat \<Rightarrow> real list \<Rightarrow> real list \<Rightarrow> nat \<Rightarrow> error option \<times> real list" where
  "band_pars_into k buf pars_in band =
     (case setslice buf 0 k (take k pars_in) of
        Inl e \<Rightarrow> (Some e, buf)
      | Inr buf1 \<Rightarrow>
          (case getitem pars_in (k + band) of
             Inl e \<Rightarrow> (Some e, buf1)
           | Inr x \<Rightarrow>
               (case setitem buf1 k x of
                  Inl e \<Rightarrow> (Some e, buf1)
                | Inr buf2 \<Rightarrow> (None, buf2))))"

definition get_band_pars ::
  "fit_class \<Rightarrow> real list \<Rightarrow> real list \<Rightarrow> nat \<Rightarrow> error option \<times> real list" where
  "get_band_pars c buf pars_in band =
     (case c of
        GalsimFitModel \<Rightarrow> band_pars_into 5 buf pars_in band
      | GalsimSpergelFitModel \<Rightarrow> band_pars_into 6 buf pars_in band
      | GalsimMoffatFitModel \<Rightarrow> band_pars_into 6 buf pars_in band)"


section \<open>Construction\<close>

text \<open>
  The steps of \<open>__init__\<close>.  The prior-term count is overridden in the two
  subclasses.
\<close>

definition set_n_prior_pars :: "fit_class \<Rightarrow> prior_t option \<Rightarrow> nat \<Rightarrow> nat" where
  "set_n_prior_pars c pr nb =
     (case c of
        GalsimFitModel \<Rightarrow> (case pr of None \<Rightarrow> 0 | Some _ \<Rightarrow> 1 + 1 + 1 + 1 + nb)
      | GalsimSpergelFitModel \<Rightarrow> (case pr of None \<Rightarrow> 0 | Some _ \<Rightarrow> 1 + 1 + 1 + 1 + 1 + nb)
      | GalsimMoffatFitModel \<Rightarrow> (case pr of None \<Rightarrow> 0 | Some _ \<Rightarrow> 1 + 1 + 1 + 1 + 1 + nb))"

definition set_totpix :: "'g kobs_data list list \<Rightarrow> nat" where
  "set_totpix obs =
     fold (\<lambda>kobs_list tot. fold (\<lambda>k tot'. tot' + length (kimage k)) kobs_list tot) obs 0"

definition set_fdiff_size :: "nat \<Rightarrow> nat \<Rightarrow> nat" where
  "set_fdiff_size npp tp = npp + 2 * tp"

text \<open>
  \<open>_init_model_images\<close>: the inverse error is the square root of the weight
  where the weight is positive and zero elsewhere; the model and scratch images
  are copies of the data image.
\<close>

definition init_kobs :: "'g kobs_data \<Rightarrow> 'g kobs" where
  "init_kobs k =
     kobs_data.extend k
       \<lparr> ierr = map (\<lambda>w. if w > 0 then sqrt w else 0) (weight k),
         kmodel = kimage k,
         kmodel_geom = kgeom k,
         scratch = kimage k \<rparr>"

definition init_model_images :: "'g kobs_data list list \<Rightarrow> 'g kobs list list" where
  "init_model_images obs = map (map init_kobs) obs"

text \<open>
  \<open>_check_guess\<close>: the size test, then one trial model for each band in
  \<open>range(nband)\<close>.  The band loop returns the exception, if any, and the slice
  buffer as it leaves it.
\<close>

fun check_guess_bands ::
  "('p, 'g) renderer \<Rightarrow> fit_class \<Rightarrow> galsim_class \<Rightarrow> real list \<Rightarrow> nat list \<Rightarrow> real list
     \<Rightarrow> error option \<times> real list" where
  "check_guess_bands R c mc guess [] buf = (None, buf)"
| "check_guess_bands R c mc guess (band # bands) buf =
     (case get_band_pars c buf guess band of
        (Some e, buf') \<Rightarrow> (Some e, buf')
      | (None, buf') \<Rightarrow>
          (case make_model R c mc buf' of
             Inl e \<Rightarrow> (Some e, buf')
           | Inr gal \<Rightarrow> check_guess_bands R c mc guess bands buf'))"

definition check_guess ::
  "('p, 'g) renderer \<Rightarrow> 'g fit_model \<Rightarrow> real list \<Rightarrow> (error + real list) \<times> 'g fit_model" where
  "check_guess R m guess =
     (if int (length guess) \<noteq> npars m then (Inl ValueError, m)
      else
        (case check_guess_bands R (fit_cls m) (model_class m) guess [0..<nband m] (band_pars m) of
           (Some e, buf) \<Rightarrow> (Inl e, m\<lparr>band_pars := buf\<rparr>)
         | (None, buf) \<Rightarrow> (Inr guess, m\<lparr>band_pars := buf\<rparr>)))"

text \<open>
  \<open>__init__\<close> of the three classes; \<open>obs\<close> is the Fourier-space observation set
  that \<open>_set_kobs\<close> obtains from the observation module, one list of epochs for
  each band.  The subclasses fix the model name.  The slice buffer has
  \<open>npars - nband + 1\<close> entries, which is 6 or 7.
\<close>

definition construct ::
  "('p, 'g) renderer \<Rightarrow> fit_class \<Rightarrow> 'g kobs_data list list \<Rightarrow> string \<Rightarrow> real list \<Rightarrow> prior_t option
     \<Rightarrow> error + 'g fit_model" where
  "construct R c obs mdl guess pr =
     (let name = (case c of
                    GalsimFitModel \<Rightarrow> mdl
                  | GalsimSpergelFitModel \<Rightarrow> ''spergel''
                  | GalsimMoffatFitModel \<Rightarrow> ''moffat'') in
      (case set_model_class c name of Inl e \<Rightarrow> Inl e | Inr mc \<Rightarrow>
      (let nb = length obs;
           npp = set_n_prior_pars c pr nb;
           tp = set_totpix obs;
           fs = set_fdiff_size npp tp;
           mb = init_model_images obs in
      (case get_galsim_npars name (int nb) of Inl e \<Rightarrow> Inl e | Inr np \<Rightarrow>
      (let npars_band = np - int nb + 1;
           m = \<lparr> fit_cls = c, model = name, model_class = mc, prior = pr, mb_kobs = mb,
                 nband = nb, n_prior_pars = npp, totpix = tp, fdiff_size = fs, npars = np,
                 band_pars = replicate (nat npars_band) 0 \<rparr> in
      (case check_guess R m guess of
         (Inl e, m') \<Rightarrow> Inl e
       | (Inr g, m') \<Rightarrow> Inr m'))))))"


section \<open>Residual assembler\<close>

text \<open>
  \<open>_fill_models\<close>: for each band the slice, for each epoch the model drawn into
  \<open>kmodel\<close> and multiplied by the PSF image.  The loops return the exception, if
  any, and the buffers as they leave them.
\<close>

fun fill_epochs ::
  "('p, 'g) renderer \<Rightarrow> fit_class \<Rightarrow> galsim_class \<Rightarrow> real list \<Rightarrow> 'g kobs list
     \<Rightarrow> error option \<times> 'g kobs list" where
  "fill_epochs R c mc bp [] = (None, [])"
| "fill_epochs R c mc bp (k # ks) =
     (case make_model R c mc bp of
        Inl e \<Rightarrow> (Some e, k # ks)
      | Inr gal \<Rightarrow>
          (case gs_drawKImage_inplace R gal (kmodel_geom k) (length (kmodel k)) of
             Inl e \<Rightarrow> (Some e, k # ks)
           | Inr f \<Rightarrow>
               (let km = map f [0..<length (kmodel k)] in
                (case (case psf k of
                         None \<Rightarrow> Inr km
                       | Some p \<Rightarrow> inplace GalSimValueError (\<lambda>x y. x * y) km p) of
                   Inl e \<Rightarrow> (Some e, k\<lparr>kmodel := km\<rparr> # ks)
                 | Inr km' \<Rightarrow>
                     (case fill_epochs R c mc bp ks of
                        (r, ks') \<Rightarrow> (r, k\<lparr>kmodel := km'\<rparr> # ks'))))))"

fun fill_bands ::
  "('p, 'g) renderer \<Rightarrow> fit_class \<Rightarrow> galsim_class \<Rightarrow> real list \<Rightarrow> nat \<Rightarrow> real list \<Rightarrow> 'g kobs list list
     \<Rightarrow> error option \<times> real list \<times> 'g kobs list list" where
  "fill_bands R c mc pars band buf [] = (None, buf, [])"
| "fill_bands R c mc pars band buf (kobs_list # rest) =
     (case get_band_pars c buf pars band of
        (Some e, buf') \<Rightarrow> (Some e, buf', kobs_list # rest)
      | (None, buf') \<Rightarrow>
          (case fill_epochs R c mc buf' kobs_list of
             (Some e, kl') \<Rightarrow> (Some e, buf', kl' # rest)
           | (None, kl') \<Rightarrow>
               (case fill_bands R c mc pars (Suc band) buf' rest of
                  (r, buf'', rest') \<Rightarrow> (r, buf'', kl' # rest'))))"

definition fill_models ::
  "('p, 'g) renderer \<Rightarrow> 'g fit_model \<Rightarrow> real list \<Rightarrow> error option \<times> 'g fit_model" where
  "fill_models R m pars =
     (case fill_bands R (fit_cls m) (model_class m) pars 0 (band_pars m) (mb_kobs m) of
        (r, buf, mb) \<Rightarrow>
          ((case r of
              None \<Rightarrow> None
            | Some e \<Rightarrow> if is_RuntimeError e then Some GMixRangeError else Some e),
           m\<lparr>band_pars := buf, mb_kobs := mb\<rparr>))"

text \<open>
  Modelled from the spec: \<open>_fill_priors\<close> is inherited from a base class that is
  not part of these sources.  When a prior is configured its penalty terms for
  the trial parameters are written at the front of the residual vector,
  positions \<open>[0, n_prior_pars)\<close>, and the next free offset is returned; without
  a prior nothing is written and the offset is 0.
\<close>

definition fill_priors :: "'g fit_model \<Rightarrow> real list \<Rightarrow> real list \<Rightarrow> error + real list \<times> nat" where
  "fill_priors m pars fdiff =
     (case prior m of
        None \<Rightarrow> Inr (fdiff, 0)
      | Some pr \<Rightarrow>
          (case pr pars of
             Inl e \<Rightarrow> Inl e
           | Inr pen \<Rightarrow>
               (case setslice fdiff 0 (n_prior_pars m) (map pen [0..<n_prior_pars m]) of
                  Inl e \<Rightarrow> Inl e
                | Inr fd \<Rightarrow> Inr (fd, n_prior_pars m))))"

text \<open>
  The body of the epoch loop of \<open>calc_fdiff\<close>: the scratch image becomes
  (model - data) / err, its real part and then its imaginary part are copied
  into the residual vector at \<open>start\<close>.
\<close>

definition fdiff_kobs :: "real list \<Rightarrow> nat \<Rightarrow> 'g kobs \<Rightarrow> (error + real list \<times> nat) \<times> 'g kobs" where
  "fdiff_kobs fdiff start k =
     (case inplace ValueError (\<lambda>x y. y) (scratch k) (kmodel k) of
        Inl e \<Rightarrow> (Inl e, k)
      | Inr s1 \<Rightarrow>
     (case inplace GalSimValueError (\<lambda>x y. x - y) s1 (kimage k) of
        Inl e \<Rightarrow> (Inl e, k\<lparr>scratch := s1\<rparr>)
      | Inr s2 \<Rightarrow>
     (case inplace ValueError (\<lambda>z w. Complex (Re z * w) (Im z)) s2 (ierr k) of
        Inl e \<Rightarrow> (Inl e, k\<lparr>scratch := s2\<rparr>)
      | Inr s3 \<Rightarrow>
     (case inplace ValueError (\<lambda>z w. Complex (Re z) (Im z * w)) s3 (ierr k) of
        Inl e \<Rightarrow> (Inl e, k\<lparr>scratch := s3\<rparr>)
      | Inr s4 \<Rightarrow>
     (let k' = k\<lparr>scratch := s4\<rparr>; imsize = length s4 in
     (case setslice fdiff start (start + imsize) (map Re s4) of
        Inl e \<Rightarrow> (Inl e, k')
      | Inr fd1 \<Rightarrow>
     (let start1 = start + imsize in
     (case setslice fd1 start1 (start1 + imsize) (map Im s4) of
        Inl e \<Rightarrow> (Inl e, k')
      | Inr fd2 \<Rightarrow> (Inr (fd2, start1 + imsize), k')))))))))"

fun fdiff_epochs ::
  "real list \<Rightarrow> nat \<Rightarrow> 'g kobs list \<Rightarrow> (error + real list \<times> nat) \<times> 'g kobs list" where
  "fdiff_epochs fdiff start [] = (Inr (fdiff, start), [])"
| "fdiff_epochs fdiff start (k # ks) =
     (case fdiff_kobs fdiff start k of
        (Inl e, k') \<Rightarrow> (Inl e, k' # ks)
      | (Inr (fd, st), k') \<Rightarrow>
          (case fdiff_epochs fd st ks of (r, ks') \<Rightarrow> (r, k' # ks')))"

text \<open>The band loop, over \<open>range(nband)\<close> with \<open>mb_kobs[band]\<close>.\<close>

fun fdiff_bands ::
  "nat list \<Rightarrow> real list \<Rightarrow> nat \<Rightarrow> 'g kobs list list \<Rightarrow> (error + real list \<times> nat) \<times> 'g kobs list list" where
  "fdiff_bands [] fdiff start mb = (Inr (fdiff, start), mb)"
| "fdiff_bands (band # bands) fdiff start mb =
     (case getitem mb band of
        Inl e \<Rightarrow> (Inl e, mb)
      | Inr kobs_list \<Rightarrow>
          (case fdiff_epochs fdiff start kobs_list of
             (Inl e, kl') \<Rightarrow> (Inl e, mb[band := kl'])
           | (Inr (fd, st), kl') \<Rightarrow> fdiff_bands bands fd st (mb[band := kl'])))"

text \<open>The \<open>try\<close> block of \<open>calc_fdiff\<close>, on the freshly zeroed vector.\<close>

definition calc_fdiff_try ::
  "('p, 'g) renderer \<Rightarrow> 'g fit_model \<Rightarrow> real list \<Rightarrow> real list \<Rightarrow> (error + real list) \<times> 'g fit_model" where
  "calc_fdiff_try R m pars fdiff =
     (case fill_models R m pars of
        (Some e, m1) \<Rightarrow> (Inl e, m1)
      | (None, m1) \<Rightarrow>
          (case fill_priors m1 pars fdiff of
             Inl e \<Rightarrow> (Inl e, m1)
           | Inr (fd, start) \<Rightarrow>
               (case fdiff_bands [0..<nband m1] fd start (mb_kobs m1) of
                  (Inl e, mb) \<Rightarrow> (Inl e, m1\<lparr>mb_kobs := mb\<rparr>)
                | (Inr (fd', st), mb) \<Rightarrow> (Inr fd', m1\<lparr>mb_kobs := mb\<rparr>))))"

text \<open>
  \<open>calc_fdiff\<close>; \<open>LOWVAL\<close> is a constant of the package's defaults and a
  parameter here.  \<open>fdiff[:] = LOWVAL\<close> sets every entry of the vector, whose
  length no assignment changes.
\<close>

definition calc_fdiff ::
  "('p, 'g) renderer \<Rightarrow> real \<Rightarrow> 'g fit_model \<Rightarrow> real list \<Rightarrow> (error + real list) \<times> 'g fit_model" where
  "calc_fdiff R LOWVAL m pars =
     (let fdiff = replicate (fdiff_size m) 0 in
      (case calc_fdiff_try R m pars fdiff of
         (Inl e, m') \<Rightarrow>
           (if e = GMixRangeError then (Inr (setslice_scalar fdiff 0 (length fdiff) LOWVAL), m')
            else (Inl e, m'))
       | (Inr fd, m') \<Rightarrow> (Inr fd, m')))"


section \<open>Fit-quality statistics\<close>

text \<open>
  The body of the epoch loop of \<open>calc_s2n_r\<close>: the round model (shear entries
  of a copy of the slice set to zero) is drawn into \<open>kmodel\<close> with the public
  \<open>drawKImage\<close>, which leaves the model image with a new geometry; the image
  is multiplied by the PSF image, real and imaginary parts are squared and
  multiplied by the weight, and their sums are added to \<open>s2n_sum\<close>.
\<close>

definition s2n_kobs ::
  "('p, 'g) renderer \<Rightarrow> fit_class \<Rightarrow> galsim_class \<Rightarrow> real list \<Rightarrow> real \<Rightarrow> 'g kobs
     \<Rightarrow> (error + real) \<times> 'g kobs" where
  "s2n_kobs R c mc bp s2n_sum k =
     (let round_pars = setslice_scalar bp 2 (2 + 2) 0 in
     (case make_model R c mc round_pars of
        Inl e \<Rightarrow> (Inl e, k)
      | Inr gal \<Rightarrow>
     (case gs_drawKImage R gal (kmodel_geom k) (length (kmodel k)) of
        Inl e \<Rightarrow> (Inl e, k)
      | Inr (g', f) \<Rightarrow>
     (let km = map f [0..<length (kmodel k)];
          k0 = k\<lparr>kmodel_geom := g'\<rparr> in
     (case (case psf k of
              None \<Rightarrow> Inr km
            | Some p \<Rightarrow> inplace GalSimValueError (\<lambda>x y. x * y) km p) of
        Inl e \<Rightarrow> (Inl e, k0\<lparr>kmodel := km\<rparr>)
      | Inr km1 \<Rightarrow>
     (let km2 = map (\<lambda>z. Complex (Re z * Re z) (Im z * Im z)) km1 in
     (case inplace ValueError (\<lambda>z w. Complex (Re z * w) (Im z)) km2 (weight k) of
        Inl e \<Rightarrow> (Inl e, k0\<lparr>kmodel := km2\<rparr>)
      | Inr km3 \<Rightarrow>
     (case inplace ValueError (\<lambda>z w. Complex (Re z) (Im z * w)) km3 (weight k) of
        Inl e \<Rightarrow> (Inl e, k0\<lparr>kmodel := km3\<rparr>)
      | Inr km4 \<Rightarrow>
          (Inr (s2n_sum + sum_list (map Re km4) + sum_list (map Im km4)),
           k0\<lparr>kmodel := km4\<rparr>)))))))))"

fun s2n_epochs ::
  "('p, 'g) renderer \<Rightarrow> fit_class \<Rightarrow> galsim_class \<Rightarrow> real list \<Rightarrow> real \<Rightarrow> 'g kobs list
     \<Rightarrow> (error + real) \<times> 'g kobs list" where
  "s2n_epochs R c mc bp s2n_sum [] = (Inr s2n_sum, [])"
| "s2n_epochs R c mc bp s2n_sum (k # ks) =
     (case s2n_kobs R c mc bp s2n_sum k of
        (Inl e, k') \<Rightarrow> (Inl e, k' # ks)
      | (Inr s, k') \<Rightarrow>
          (case s2n_epochs R c mc bp s ks of (r, ks') \<Rightarrow> (r, k' # ks')))"

fun s2n_bands ::
  "('p, 'g) renderer \<Rightarrow> fit_class \<Rightarrow> galsim_class \<Rightarrow> real list \<Rightarrow> nat \<Rightarrow> real \<Rightarrow> real list
     \<Rightarrow> 'g kobs list list \<Rightarrow> (error + real) \<times> real list \<times> 'g kobs list list" where
  "s2n_bands R c mc pars band s2n_sum buf [] = (Inr s2n_sum, buf, [])"
| "s2n_bands R c mc pars band s2n_sum buf (kobs_list # rest) =
     (case get_band_pars c buf pars band of
        (Some e, buf') \<Rightarrow> (Inl e, buf', kobs_list # rest)
      | (None, buf') \<Rightarrow>
          (case s2n_epochs R c mc buf' s2n_sum kobs_list of
             (Inl e, kl') \<Rightarrow> (Inl e, buf', kl' # rest)
           | (Inr s, kl') \<Rightarrow>
               (case s2n_bands R c mc pars (Suc band) s buf' rest of
                  (r, buf'', rest') \<Rightarrow> (r, buf'', kl' # rest'))))"

text \<open>The two loops of \<open>calc_s2n_r\<close>, from \<open>s2n_sum = 0.0\<close>.\<close>

definition calc_s2n_sum ::
  "('p, 'g) renderer \<Rightarrow> 'g fit_model \<Rightarrow> real list \<Rightarrow> (error + real) \<times> 'g fit_model" where
  "calc_s2n_sum R m pars =
     (case s2n_bands R (fit_cls m) (model_class m) pars 0 0 (band_pars m) (mb_kobs m) of
        (r, buf, mb) \<Rightarrow> (r, m\<lparr>band_pars := buf, mb_kobs := mb\<rparr>))"

definition calc_s2n_r ::
  "('p, 'g) renderer \<Rightarrow> 'g fit_model \<Rightarrow> real list \<Rightarrow> (error + real) \<times> 'g fit_model" where
  "calc_s2n_r R m pars =
     (case calc_s2n_sum R m pars of
        (Inl e, m') \<Rightarrow> (Inl e, m')
      | (Inr s2n_sum, m') \<Rightarrow> (Inr (if s2n_sum > 0 then sqrt s2n_sum else 0), m'))"


section \<open>Fit models in use\<close>

text \<open>
  The fit models a caller can hold: one returned by a constructor, or one on
  which \<open>calc_fdiff\<close> or \<open>calc_s2n_r\<close> has been called since.
\<close>

inductive constructed :: "('p, 'g) renderer \<Rightarrow> real \<Rightarrow> 'g fit_model \<Rightarrow> bool"
  for R :: "('p, 'g) renderer" and LOWVAL :: real where
  new: "construct R c obs mdl guess pr = Inr m \<Longrightarrow> constructed R LOWVAL m"
| after_calc_fdiff:
    "constructed R LOWVAL m \<Longrightarrow> constructed R LOWVAL (snd (calc_fdiff R LOWVAL m pars))"
| after_calc_s2n_r:
    "constructed R LOWVAL m \<Longrightarrow> constructed R LOWVAL (snd (calc_s2n_r R m pars))"


section \<open>Weighted moments\<close>

text \<open>
  The entries of the result dictionary of the moments measurement that
  \<open>_measure_moments\<close> reads or rescales; the other entries are the record's
  extension.
\<close>

record moments_result =
  res_flags :: int
  res_flux :: real
  res_flux_err :: real
  res_pars :: "real list"
  res_sums :: "real list"
  res_sums_cov :: "real list list"
  res_sums_norm :: real
  res_wsum :: real
  res_sums_err :: "real list"

text \<open>
  \<open>GaussMom._measure_moments\<close> on the result \<open>res\<close> that the weight's
  \<open>get_weighted_moments\<close> returned and the area of the observation's Jacobian.
  \<open>1/area\<close> is a float division, which raises for a zero area.
\<close>

definition measure_moments ::
  "'a moments_result_scheme \<Rightarrow> real \<Rightarrow> error + 'a moments_result_scheme" where
  "measure_moments res area =
     (if res_flags res \<noteq> 0 then Inr res
      else if area = 0 then Inl ZeroDivisionError
      else
        (let fac = 1 / area in
         (case getitem (res_pars res) 5 of
            Inl e \<Rightarrow> Inl e
          | Inr p5 \<Rightarrow>
              Inr (res\<lparr> res_flux := res_flux res * fac,
                        res_flux_err := res_flux_err res * fac,
                        res_pars := (res_pars res)[5 := p5 * fac],
                        res_sums := map (\<lambda>x. x * fac) (res_sums res),
                        res_sums_cov := map (map (\<lambda>x. x * fac ^ 2)) (res_sums_cov res),
                        res_sums_norm := res_sums_norm res * fac,
                        res_wsum := res_wsum res * fac,
                        res_sums_err := map (\<lambda>x. x * fac) (res_sums_err res) \<rparr>))))"


section \<open>Invariants and example data\<close>

text \<open>The number of leading parameters that all bands share.\<close>

definition nshared :: "fit_class \<Rightarrow> nat" where
  "nshared c = (case c of GalsimFitModel \<Rightarrow> 5 | GalsimSpergelFitModel \<Rightarrow> 6 | GalsimMoffatFitModel \<Rightarrow> 6)"

text \<open>
  The slice of a full parameter vector for one band: the shared leading
  parameters and that band's flux.
\<close>

definition band_slice :: "fit_class \<Rightarrow> real list \<Rightarrow> nat \<Rightarrow> real list" where
  "band_slice c pars b = take (nshared c) pars @ [pars ! (nshared c + b)]"

text \<open>
  Two states of one observation that differ at most in the contents of the
  model and scratch images and, unless \<open>geo\<close> is set, in the geometry of the
  model image.
\<close>

definition kobs_rel :: "bool \<Rightarrow> 'g kobs \<Rightarrow> 'g kobs \<Rightarrow> bool" where
  "kobs_rel geo k k' \<longleftrightarrow>
     kimage k' = kimage k \<and> kgeom k' = kgeom k \<and> weight k' = weight k \<and> psf k' = psf k \<and>
     ierr k' = ierr k \<and> (geo \<longrightarrow> kmodel_geom k' = kmodel_geom k) \<and>
     length (kmodel k') = length (kmodel k) \<and> length (scratch k') = length (scratch k)"

text \<open>
  Two states of one fit model that differ at most in the contents of its
  buffers (the slice buffer and the model and scratch images) and, unless
  \<open>geo\<close> is set, in the geometry of the model images.
\<close>

definition same_setup :: "bool \<Rightarrow> 'g fit_model \<Rightarrow> 'g fit_model \<Rightarrow> bool" where
  "same_setup geo m m' \<longleftrightarrow>
     fit_cls m' = fit_cls m \<and> model m' = model m \<and> model_class m' = model_class m \<and>
     prior m' = prior m \<and> nband m' = nband m \<and> n_prior_pars m' = n_prior_pars m \<and>
     totpix m' = totpix m \<and> fdiff_size m' = fdiff_size m \<and> npars m' = npars m \<and>
     length (band_pars m') = length (band_pars m) \<and>
     list_all2 (list_all2 (kobs_rel geo)) (mb_kobs m) (mb_kobs m')"

text \<open>The same geometry, and the model images agree as well.\<close>

definition kobs_eqm :: "'g kobs \<Rightarrow> 'g kobs \<Rightarrow> bool" where
  "kobs_eqm k k' \<longleftrightarrow> kobs_rel True k k' \<and> kmodel k' = kmodel k"

text \<open>
  \<open>later R LOWVAL m m'\<close>: the fit model in state \<open>m\<close> is in state \<open>m'\<close> after
  some further calls of \<open>calc_fdiff\<close>, with any parameter vectors.
\<close>

inductive later :: "('p, 'g) renderer \<Rightarrow> real \<Rightarrow> 'g fit_model \<Rightarrow> 'g fit_model \<Rightarrow> bool"
  for R :: "('p, 'g) renderer" and LOWVAL :: real and m :: "'g fit_model" where
  now: "later R LOWVAL m m"
| then_calc_fdiff:
    "later R LOWVAL m m' \<Longrightarrow> later R LOWVAL m (snd (calc_fdiff R LOWVAL m' pars))"

text \<open>
  The layout of the residual vector in the words of its specification: the
  prior terms first, then for each band in increasing index order, for each
  epoch in list order, the real part of the normalized difference
  (model - data) / error followed by its imaginary part.
\<close>

definition normalized_diff :: "'g kobs \<Rightarrow> complex list" where
  "normalized_diff k =
     map (\<lambda>((mo, d), ie). Complex (Re (mo - d) * ie) (Im (mo - d) * ie))
       (zip (zip (kmodel k) (kimage k)) (ierr k))"

definition prior_terms :: "'g fit_model \<Rightarrow> real list \<Rightarrow> error + real list" where
  "prior_terms m pars =
     (case prior m of
        None \<Rightarrow> Inr []
      | Some pr \<Rightarrow>
          (case pr pars of
             Inl e \<Rightarrow> Inl e
           | Inr pen \<Rightarrow> Inr (map pen [0..<n_prior_pars m])))"

definition fdiff_layout :: "real list \<Rightarrow> 'g kobs list list \<Rightarrow> real list" where
  "fdiff_layout pterms mb =
     pterms @
     concat (map (\<lambda>kobs_list.
                    concat (map (\<lambda>k. map Re (normalized_diff k) @ map Im (normalized_diff k))
                              kobs_list)) mb)"

text \<open>
  The round signal-to-noise in the words of its specification.  The
  PSF-multiplied round model of one epoch: the band's slice with the two
  ellipticity entries set to zero is rendered into an image of the data
  image's size and multiplied by the PSF image when there is one.
\<close>

definition round_kmodel ::
  "('p, 'g) renderer \<Rightarrow> fit_class \<Rightarrow> galsim_class \<Rightarrow> real list \<Rightarrow> 'g kobs
     \<Rightarrow> error + complex list" where
  "round_kmodel R c mc bp k =
     (case make_model R c mc (bp[2 := 0, 3 := 0]) of
        Inl e \<Rightarrow> Inl e
      | Inr gal \<Rightarrow>
          (case gs_drawKImage R gal (kmodel_geom k) (length (kimage k)) of
             Inl e \<Rightarrow> Inl e
           | Inr (g', f) \<Rightarrow>
               (case psf k of
                  None \<Rightarrow> Inr (map f [0..<length (kimage k)])
                | Some p \<Rightarrow>
                    inplace GalSimValueError (\<lambda>x y. x * y) (map f [0..<length (kimage k)]) p)))"

text \<open>
  The weighted power of an image: the sum over its pixels of the weight times
  the squared real part, plus the same for the imaginary part.
\<close>

definition weighted_power :: "real list \<Rightarrow> complex list \<Rightarrow> real" where
  "weighted_power ws zs =
     sum_list (map2 (\<lambda>z w. Re z * Re z * w) zs ws) +
     sum_list (map2 (\<lambda>z w. Im z * Im z * w) zs ws)"

definition epoch_power ::
  "('p, 'g) renderer \<Rightarrow> fit_class \<Rightarrow> galsim_class \<Rightarrow> real list \<Rightarrow> 'g kobs \<Rightarrow> error + real" where
  "epoch_power R c mc bp k =
     (case round_kmodel R c mc bp k of
        Inl e \<Rightarrow> Inl e
      | Inr zs \<Rightarrow> Inr (weighted_power (weight k) zs))"

text \<open>The sum of a list of outcomes: the first failure, or the sum of the values.\<close>

fun sum_results :: "(error + real) list \<Rightarrow> error + real" where
  "sum_results [] = Inr 0"
| "sum_results (r # rs) =
     (case r of
        Inl e \<Rightarrow> Inl e
      | Inr x \<Rightarrow> (case sum_results rs of Inl e \<Rightarrow> Inl e | Inr y \<Rightarrow> Inr (x + y)))"

text \<open>
  The accumulated weighted model power: the weighted power of the round model,
  summed over all bands (each with its own slice of the parameter vector) and
  over the epochs of each band.
\<close>

definition model_power :: "('p, 'g) renderer \<Rightarrow> 'g fit_model \<Rightarrow> real list \<Rightarrow> error + real" where
  "model_power R m pars =
     sum_results
       (concat (map (\<lambda>(b, kobs_list).
                       map (epoch_power R (fit_cls m) (model_class m)
                              (band_slice (fit_cls m) pars b)) kobs_list)
                  (zip [0..<length (mb_kobs m)] (mb_kobs m))))"

text \<open>What the constructor establishes and every call keeps.\<close>

definition model_inv :: "'g fit_model \<Rightarrow> bool" where
  "model_inv m \<longleftrightarrow>
     nband m = length (mb_kobs m) \<and>
     set_model_class (fit_cls m) (model m) = Inr (model_class m) \<and>
     get_galsim_npars (model m) (int (nband m)) = Inr (npars m) \<and>
     npars m = int (nshared (fit_cls m)) + int (nband m) \<and>
     length (band_pars m) = nshared (fit_cls m) + 1 \<and>
     n_prior_pars m = set_n_prior_pars (fit_cls m) (prior m) (nband m) \<and>
     totpix m = sum_list (map (\<lambda>k. length (kimage k)) (concat (mb_kobs m))) \<and>
     fdiff_size m = n_prior_pars m + 2 * totpix m \<and>
     list_all (list_all (\<lambda>k. length (kmodel k) = length (kimage k) \<and>
                              length (scratch k) = length (kimage k) \<and>
                              length (ierr k) = length (weight k))) (mb_kobs m)"

text \<open>
  An example renderer: it accepts every size and flux and rejects a shear
  outside the unit disc with galsim's range error.  A profile is the pair of its
  size and flux, a geometry is the offset of the image centre from the origin.
  \<open>_drawKImage\<close> draws the profile's flux plus the offset into every pixel;
  \<open>drawKImage\<close> recentres the image (offset 0) and draws the flux.
\<close>

definition example_renderer :: "(real \<times> real, int) renderer" where
  "example_renderer =
     \<lparr> gs_new = (\<lambda>cls x r50 flux. Inr (r50, flux)),
       gs_shear = (\<lambda>p g1 g2. if g1 * g1 + g2 * g2 < 1 then Inr p else Inl GalSimValueError),
       gs_shift = (\<lambda>p s. Inr p),
       gs_drawKImage_inplace = (\<lambda>p g n. Inr (\<lambda>i. Complex (snd p + of_int g) 0)),
       gs_drawKImage = (\<lambda>p g n. Inr (0, \<lambda>i. Complex (snd p) 0)) \<rparr>"

text \<open>
  An example observation set: one band, one epoch, two pixels, centred, no PSF.
\<close>

definition example_obs :: "int kobs_data list list" where
  "example_obs =
     [[\<lparr> kimage = [Complex 1 2, Complex 3 0], kgeom = 0, weight = [1, 0], psf = None \<rparr>]]"

text \<open>An example prior whose penalty terms are all zero.\<close>

definition example_prior :: prior_t where
  "example_prior = (\<lambda>pars. Inr (\<lambda>i. 0))"


text \<open>
  The Gaussian fit model on two bands (the example observation in each) without
  a prior, as the constructor returns it for the guess
  \<open>[0, 0, 0, 0, 0.3, 100, 200]\<close>.
\<close>

definition example_obs2 :: "int kobs_data list list" where
  "example_obs2 = example_obs @ example_obs"

definition example_guess2 :: "real list" where
  "example_guess2 = [0, 0, 0, 0, 3 / 10, 100, 200]"

definition example_kobs :: "int kobs" where
  "example_kobs =
     \<lparr> kimage = [Complex 1 2, Complex 3 0], kgeom = 0, weight = [1, 0], psf = None,
       ierr = [1, 0], kmodel = [Complex 1 2, Complex 3 0], kmodel_geom = 0,
       scratch = [Complex 1 2, Complex 3 0] \<rparr>"

definition example_model2 :: "int fit_model" where
  "example_model2 =
     \<lparr> fit_cls = GalsimFitModel, model = ''gauss'', model_class = Gaussian, prior = None,
       mb_kobs = [[example_kobs], [example_kobs]], nband = 2, n_prior_pars = 0, totpix = 4,
       fdiff_size = 8, npars = 7, band_pars = [0, 0, 0, 0, 3 / 10, 200] \<rparr>"


text \<open>
  The Spergel fit model on the same two bands with the example prior, as the
  constructor returns it for the guess \<open>[0, 0, 0, 0, 0.3, 0.5, 100, 200]\<close>.
\<close>

definition example_spergel :: "int fit_model" where
  "example_spergel =
     \<lparr> fit_cls = GalsimSpergelFitModel, model = ''spergel'', model_class = Spergel,
       prior = Some example_prior, mb_kobs = [[example_kobs], [example_kobs]], nband = 2,
       n_prior_pars = 7, totpix = 4, fdiff_size = 15, npars = 8,
       band_pars = [0, 0, 0, 0, 3 / 10, 1 / 2, 200] \<rparr>"

text \<open>The one-band example observation set with an off-centre data image.\<close>

definition example_obs_off :: "int kobs_data list list" where
  "example_obs_off =
     [[\<lparr> kimage = [Complex 1 2, Complex 3 0], kgeom = 3, weight = [1, 0], psf = None \<rparr>]]"

text \<open>An example result of a moments measurement, with six parameters and one sum.\<close>

definition example_res :: "int \<Rightarrow> moments_result" where
  "example_res fl =
     \<lparr> res_flags = fl, res_flux = 8, res_flux_err = 2, res_pars = [0, 0, 0, 0, 1, 8],
       res_sums = [4], res_sums_cov = [[16]], res_sums_norm = 2, res_wsum = 6,
       res_sums_err = [4] \<rparr>"


section \<open>Properties of the registry\<close>

text \<open>
  C3. For every band count \<open>B\<close>, \<open>get_galsim_npars mdl B\<close> is \<open>5 + B\<close> for the
  models exp, dev and gauss, \<open>6 + B\<close> for spergel and moffat, and raises the
  unsupported-model error (a \<open>ValueError\<close>) for every other model name.
\<close>

theorem get_galsim_npars_spec:
  "(mdl \<in> {''exp'', ''dev'', ''gauss''} \<longrightarrow> get_galsim_npars mdl B = Inr (5 + B)) \<and>
   (mdl \<in> {''spergel'', ''moffat''} \<longrightarrow> get_galsim_npars mdl B = Inr (6 + B)) \<and>
   (mdl \<notin> {''exp'', ''dev'', ''gauss'', ''spergel'', ''moffat''} \<longrightarrow>
      get_galsim_npars mdl B = Inl ValueError)"
  by (auto simp: get_galsim_npars_def)

theorem get_galsim_npars_spec_witness:
  "get_galsim_npars ''gauss'' 2 = Inr 7 \<and> get_galsim_npars ''moffat'' 2 = Inr 8 \<and>
   get_galsim_npars ''sersic'' 2 = Inl ValueError"
  using get_galsim_npars_spec [of "''gauss''" 2] get_galsim_npars_spec [of "''moffat''" 2]
    get_galsim_npars_spec [of "''sersic''" 2]
  by simp


section \<open>Array primitives keep lengths\<close>

lemma setslice_length: "setslice a lo hi v = Inr a' \<Longrightarrow> length a' = length a"
  by (auto simp: setslice_def Let_def split: if_splits)

lemma setslice_scalar_length: "length (setslice_scalar a lo hi x) = length a"
  by (auto simp: setslice_scalar_def Let_def)

lemma setslice_scalar_full: "setslice_scalar a 0 (length a) x = replicate (length a) x"
  by (simp add: setslice_scalar_def Let_def)

lemma setitem_length: "setitem a i x = Inr a' \<Longrightarrow> length a' = length a"
  by (auto simp: setitem_def split: if_splits)

lemma inplace_length: "inplace err f a b = Inr a' \<Longrightarrow> length a' = length a"
  by (auto simp: inplace_def split: if_splits)

lemma band_pars_into_length: "length (snd (band_pars_into k buf p b)) = length buf"
  by (auto simp: band_pars_into_def split: sum.splits dest!: setslice_length setitem_length)

lemma get_band_pars_length: "length (snd (get_band_pars c buf p b)) = length buf"
  by (simp add: get_band_pars_def band_pars_into_length split: fit_class.splits)



section \<open>Calls change buffer contents only\<close>

lemma kobs_rel_refl: "kobs_rel geo k k"
  by (simp add: kobs_rel_def)

lemma kobs_rel_trans: "kobs_rel geo a b \<Longrightarrow> kobs_rel geo b c \<Longrightarrow> kobs_rel geo a c"
  by (simp add: kobs_rel_def)

lemma kobs_list_rel_refl: "list_all2 (kobs_rel geo) ks ks"
  by (simp add: list_all2_refl kobs_rel_refl)

lemma mb_rel_refl: "list_all2 (list_all2 (kobs_rel geo)) mb mb"
  by (simp add: list_all2_refl kobs_list_rel_refl)

lemma kobs_list_rel_trans:
  "list_all2 (kobs_rel geo) a b \<Longrightarrow> list_all2 (kobs_rel geo) b c \<Longrightarrow> list_all2 (kobs_rel geo) a c"
  by (rule list_all2_trans[of "kobs_rel geo" "kobs_rel geo" "kobs_rel geo"]) (auto intro: kobs_rel_trans)

lemma mb_rel_trans:
  "list_all2 (list_all2 (kobs_rel geo)) a b \<Longrightarrow> list_all2 (list_all2 (kobs_rel geo)) b c
     \<Longrightarrow> list_all2 (list_all2 (kobs_rel geo)) a c"
  by (rule list_all2_trans[of "list_all2 (kobs_rel geo)" "list_all2 (kobs_rel geo)" "list_all2 (kobs_rel geo)"])
     (auto intro: kobs_list_rel_trans)

lemma kobs_rel_kmodel: "length km = length (kmodel k) \<Longrightarrow> kobs_rel geo k (k\<lparr>kmodel := km\<rparr>)"
  by (simp add: kobs_rel_def)

lemma kobs_rel_scratch: "length s = length (scratch k) \<Longrightarrow> kobs_rel geo k (k\<lparr>scratch := s\<rparr>)"
  by (simp add: kobs_rel_def)

lemma fill_epochs_rel: "list_all2 (kobs_rel geo) ks (snd (fill_epochs R c mc bp ks))"
proof (induction ks)
  case Nil
  show ?case by simp
next
  case (Cons k ks)
  show ?case
    using Cons.IH
    by (auto simp: kobs_rel_refl kobs_list_rel_refl kobs_rel_kmodel Let_def
          split: sum.splits option.splits prod.splits dest!: inplace_length)
qed

lemma fill_bands_rel:
  "length (fst (snd (fill_bands R c mc pars band buf mb))) = length buf \<and>
   list_all2 (list_all2 (kobs_rel geo)) mb (snd (snd (fill_bands R c mc pars band buf mb)))"
proof (induction mb arbitrary: band buf)
  case Nil
  show ?case by simp
next
  case (Cons kl rest)
  have len: "length (snd (get_band_pars c buf pars band)) = length buf"
    by (rule get_band_pars_length)
  show ?case
  proof (cases "get_band_pars c buf pars band")
    case (Pair r buf')
    with len have l': "length buf' = length buf" by simp
    show ?thesis
    proof (cases r)
      case (Some e)
      with Pair l' show ?thesis by (simp add: mb_rel_refl kobs_list_rel_refl)
    next
      case None
      show ?thesis
      proof (cases "fill_epochs R c mc buf' kl")
        case (Pair r2 kl')
        have rel: "list_all2 (kobs_rel geo) kl kl'"
          using fill_epochs_rel[of _ kl R c mc buf'] Pair by simp
        show ?thesis
          using \<open>get_band_pars c buf pars band = (r, buf')\<close> None Pair rel l'
            Cons.IH[of "Suc band" buf']
          by (auto simp: mb_rel_refl split: option.splits prod.splits)
      qed
    qed
  qed
qed

lemma fdiff_kobs_rel: "kobs_rel geo k (snd (fdiff_kobs fd st k))"
  by (auto simp: fdiff_kobs_def Let_def kobs_rel_refl kobs_rel_scratch
        split: sum.splits dest!: inplace_length)

lemma fdiff_epochs_rel: "list_all2 (kobs_rel geo) ks (snd (fdiff_epochs fd st ks))"
proof (induction ks arbitrary: fd st)
  case Nil
  show ?case by simp
next
  case (Cons k ks)
  obtain r k' where kk: "fdiff_kobs fd st k = (r, k')" by (cases "fdiff_kobs fd st k")
  have rel: "kobs_rel geo k k'" using fdiff_kobs_rel[of _ k fd st] kk by simp
  show ?case
  proof (cases r)
    case (Inl e)
    with kk rel show ?thesis by (simp add: kobs_list_rel_refl)
  next
    case (Inr x)
    obtain fd' st' where x: "x = (fd', st')" by (cases x)
    obtain r2 ks' where ee: "fdiff_epochs fd' st' ks = (r2, ks')" by (cases "fdiff_epochs fd' st' ks")
    have "list_all2 (kobs_rel geo) ks ks'" using Cons.IH[of fd' st'] ee by simp
    with kk rel Inr x ee show ?thesis by simp
  qed
qed

lemma fdiff_bands_rel:
  "list_all2 (list_all2 (kobs_rel geo)) mb (snd (fdiff_bands bs fd st mb))"
proof (induction bs arbitrary: fd st mb)
  case Nil
  show ?case by (simp add: mb_rel_refl)
next
  case (Cons b bs)
  show ?case
  proof (cases "b < length mb")
    case False
    then show ?thesis by (simp add: getitem_def mb_rel_refl)
  next
    case True
    obtain r kl' where ep: "fdiff_epochs fd st (mb ! b) = (r, kl')" by (cases "fdiff_epochs fd st (mb ! b)")
    have rel: "list_all2 (kobs_rel geo) (mb ! b) kl'"
      using fdiff_epochs_rel[of _ "mb ! b" fd st] ep by simp
    have upd: "list_all2 (list_all2 (kobs_rel geo)) mb (mb[b := kl'])"
      using list_all2_update_cong[OF mb_rel_refl[of _ mb] rel, of b] by simp
    show ?thesis
    proof (cases r)
      case (Inl e)
      with True ep upd show ?thesis by (simp add: getitem_def)
    next
      case (Inr x)
      obtain fd' st' where x: "x = (fd', st')" by (cases x)
      have "list_all2 (list_all2 (kobs_rel geo)) (mb[b := kl']) (snd (fdiff_bands bs fd' st' (mb[b := kl'])))"
        by (rule Cons.IH)
      with upd have "list_all2 (list_all2 (kobs_rel geo)) mb (snd (fdiff_bands bs fd' st' (mb[b := kl'])))"
        by (rule mb_rel_trans)
      with True ep Inr x show ?thesis by (simp add: getitem_def)
    qed
  qed
qed

lemma kobs_rel_recentred:
  "length km = length (kmodel k) \<Longrightarrow> kobs_rel False k (k\<lparr>kmodel_geom := g, kmodel := km\<rparr>)"
  by (simp add: kobs_rel_def)

lemma s2n_kobs_rel: "kobs_rel False k (snd (s2n_kobs R c mc bp s k))"
  by (auto simp: s2n_kobs_def Let_def kobs_rel_refl kobs_rel_recentred
        split: sum.splits option.splits dest!: inplace_length)

lemma s2n_epochs_rel: "list_all2 (kobs_rel False) ks (snd (s2n_epochs R c mc bp s ks))"
proof (induction ks arbitrary: s)
  case Nil
  show ?case by simp
next
  case (Cons k ks)
  obtain r k' where kk: "s2n_kobs R c mc bp s k = (r, k')" by (cases "s2n_kobs R c mc bp s k")
  have rel: "kobs_rel False k k'" using s2n_kobs_rel[of k R c mc bp s] kk by simp
  show ?case
  proof (cases r)
    case (Inl e)
    with kk rel show ?thesis by (simp add: kobs_list_rel_refl)
  next
    case (Inr s')
    obtain r2 ks' where ee: "s2n_epochs R c mc bp s' ks = (r2, ks')"
      by (cases "s2n_epochs R c mc bp s' ks")
    have "list_all2 (kobs_rel False) ks ks'" using Cons.IH[of s'] ee by simp
    with kk rel Inr ee show ?thesis by simp
  qed
qed

lemma s2n_bands_rel:
  "length (fst (snd (s2n_bands R c mc pars band s buf mb))) = length buf \<and>
   list_all2 (list_all2 (kobs_rel False)) mb (snd (snd (s2n_bands R c mc pars band s buf mb)))"
proof (induction mb arbitrary: band s buf)
  case Nil
  show ?case by simp
next
  case (Cons kl rest)
  obtain r buf' where gp: "get_band_pars c buf pars band = (r, buf')"
    by (cases "get_band_pars c buf pars band")
  have l': "length buf' = length buf" using get_band_pars_length[of c buf pars band] gp by simp
  show ?case
  proof (cases r)
    case (Some e)
    with gp l' show ?thesis by (simp add: mb_rel_refl kobs_list_rel_refl)
  next
    case None
    obtain r2 kl' where ep: "s2n_epochs R c mc buf' s kl = (r2, kl')"
      by (cases "s2n_epochs R c mc buf' s kl")
    have rel: "list_all2 (kobs_rel False) kl kl'"
      using s2n_epochs_rel[of kl R c mc buf' s] ep by simp
    show ?thesis
    proof (cases r2)
      case (Inl e)
      with gp None ep rel l' show ?thesis by (simp add: mb_rel_refl)
    next
      case (Inr s')
      show ?thesis
        using gp None ep rel l' Inr Cons.IH[of "Suc band" s' buf']
        by (auto split: prod.splits)
    qed
  qed
qed

lemma same_setup_refl: "same_setup geo m m"
  by (simp add: same_setup_def mb_rel_refl)

lemma same_setup_trans: "same_setup geo a b \<Longrightarrow> same_setup geo b c \<Longrightarrow> same_setup geo a c"
  by (auto simp: same_setup_def intro: mb_rel_trans)

lemma fill_models_same_setup: "same_setup geo m (snd (fill_models R m pars))"
  using fill_bands_rel[of R "fit_cls m" "model_class m" pars 0 "band_pars m" "mb_kobs m"]
  by (auto simp: fill_models_def same_setup_def split: prod.splits)

lemma calc_fdiff_try_same_setup: "same_setup geo m (snd (calc_fdiff_try R m pars fd))"
proof -
  obtain r m1 where fm: "fill_models R m pars = (r, m1)" by (cases "fill_models R m pars")
  have s1: "same_setup geo m m1" using fill_models_same_setup[of _ m R pars] fm by simp
  show ?thesis
  proof (cases r)
    case (Some e)
    with fm s1 show ?thesis by (simp add: calc_fdiff_try_def)
  next
    case None
    show ?thesis
    proof (cases "fill_priors m1 pars fd")
      case (Inl e)
      with fm None s1 show ?thesis by (simp add: calc_fdiff_try_def)
    next
      case (Inr x)
      obtain fd0 st where x: "x = (fd0, st)" by (cases x)
      obtain r2 mb where fb: "fdiff_bands [0..<nband m1] fd0 st (mb_kobs m1) = (r2, mb)"
        by (cases "fdiff_bands [0..<nband m1] fd0 st (mb_kobs m1)")
      have "list_all2 (list_all2 (kobs_rel geo)) (mb_kobs m1) mb"
        using fdiff_bands_rel[of _ "mb_kobs m1" "[0..<nband m1]" fd0 st] fb by simp
      then have "same_setup geo m1 (m1\<lparr>mb_kobs := mb\<rparr>)" by (simp add: same_setup_def)
      with s1 have "same_setup geo m (m1\<lparr>mb_kobs := mb\<rparr>)" by (rule same_setup_trans)
      with fm None Inr x fb show ?thesis
        by (auto simp: calc_fdiff_try_def split: sum.splits prod.splits)
    qed
  qed
qed

lemma calc_fdiff_same_setup: "same_setup geo m (snd (calc_fdiff R L m pars))"
  using calc_fdiff_try_same_setup[of _ m R pars "replicate (fdiff_size m) 0"]
  by (auto simp: calc_fdiff_def Let_def split: prod.splits sum.splits)

lemma calc_s2n_sum_same_setup: "same_setup False m (snd (calc_s2n_sum R m pars))"
  using s2n_bands_rel[of R "fit_cls m" "model_class m" pars 0 0 "band_pars m" "mb_kobs m"]
  by (auto simp: calc_s2n_sum_def same_setup_def split: prod.splits)

lemma calc_s2n_r_same_setup: "same_setup False m (snd (calc_s2n_r R m pars))"
  using calc_s2n_sum_same_setup[of m R pars]
  by (auto simp: calc_s2n_r_def split: prod.splits sum.splits)

lemma kobs_rel_sizes:
  "list_all2 (list_all2 (kobs_rel geo)) mb mb' \<Longrightarrow>
   map (\<lambda>k. length (kimage k)) (concat mb') = map (\<lambda>k. length (kimage k)) (concat mb)"
proof (induction mb mb' rule: list_all2_induct)
  case Nil
  show ?case by simp
next
  case (Cons kl mb kl' mb')
  have "map (\<lambda>k. length (kimage k)) kl' = map (\<lambda>k. length (kimage k)) kl"
    using Cons.hyps(1) by (induction kl kl' rule: list_all2_induct) (auto simp: kobs_rel_def)
  with Cons.IH show ?case by simp
qed

lemma kobs_rel_bufs:
  "list_all2 (list_all2 (kobs_rel geo)) mb mb' \<Longrightarrow>
   list_all (list_all (\<lambda>k. length (kmodel k) = length (kimage k) \<and>
                            length (scratch k) = length (kimage k) \<and>
                            length (ierr k) = length (weight k))) mb \<Longrightarrow>
   list_all (list_all (\<lambda>k. length (kmodel k) = length (kimage k) \<and>
                            length (scratch k) = length (kimage k) \<and>
                            length (ierr k) = length (weight k))) mb'"
proof (induction mb mb' rule: list_all2_induct)
  case Nil
  show ?case by simp
next
  case (Cons kl mb kl' mb')
  have "list_all (\<lambda>k. length (kmodel k) = length (kimage k) \<and>
                            length (scratch k) = length (kimage k) \<and>
                            length (ierr k) = length (weight k)) kl \<Longrightarrow>
        list_all (\<lambda>k. length (kmodel k) = length (kimage k) \<and>
                            length (scratch k) = length (kimage k) \<and>
                            length (ierr k) = length (weight k)) kl'"
    using Cons.hyps(1) by (induction kl kl' rule: list_all2_induct) (auto simp: kobs_rel_def)
  with Cons show ?case by simp
qed

lemma model_inv_same_setup: "model_inv m \<Longrightarrow> same_setup geo m m' \<Longrightarrow> model_inv m'"
  unfolding model_inv_def same_setup_def
  using kobs_rel_sizes[of _ "mb_kobs m" "mb_kobs m'"] kobs_rel_bufs[of _ "mb_kobs m" "mb_kobs m'"]
  by (auto dest: list_all2_lengthD)

lemma set_totpix_sum: "set_totpix obs = sum_list (map (\<lambda>k. length (kimage k)) (concat obs))"
proof -
  have inner: "fold (\<lambda>k tot'. tot' + length (kimage k)) kl t =
               t + sum_list (map (\<lambda>k. length (kimage k)) kl)" for kl :: "'g kobs_data list" and t
    by (induction kl arbitrary: t) auto
  have outer: "fold (\<lambda>kobs_list tot. fold (\<lambda>k tot'. tot' + length (kimage k)) kobs_list tot) obs t =
               t + sum_list (map (\<lambda>k. length (kimage k)) (concat obs))" for t
    by (induction obs arbitrary: t) (auto simp: inner)
  show ?thesis by (simp add: set_totpix_def outer)
qed

lemma check_guess_bands_length:
  "length (snd (check_guess_bands R c mc guess bs buf)) = length buf"
proof (induction bs arbitrary: buf)
  case Nil
  show ?case by simp
next
  case (Cons b bs)
  obtain r buf' where gp: "get_band_pars c buf guess b = (r, buf')"
    by (cases "get_band_pars c buf guess b")
  have l': "length buf' = length buf" using get_band_pars_length[of c buf guess b] gp by simp
  show ?case
    using gp l' Cons.IH[of buf'] by (auto split: option.splits sum.splits)
qed

lemma check_guess_same_setup: "same_setup geo m (snd (check_guess R m guess))"
  using check_guess_bands_length[of R "fit_cls m" "model_class m" guess "[0..<nband m]" "band_pars m"]
  by (auto simp: check_guess_def same_setup_def mb_rel_refl split: prod.splits option.splits)

lemma construct_inv:
  assumes "construct R c obs mdl guess pr = Inr m"
  shows "model_inv m"
proof -
  define name where "name = (case c of GalsimFitModel \<Rightarrow> mdl
      | GalsimSpergelFitModel \<Rightarrow> ''spergel'' | GalsimMoffatFitModel \<Rightarrow> ''moffat'')"
  from assms obtain mc where mc: "set_model_class c name = Inr mc"
    by (auto simp: construct_def name_def Let_def split: sum.splits)
  from assms mc obtain np where np: "get_galsim_npars name (int (length obs)) = Inr np"
    by (auto simp: construct_def name_def[symmetric] Let_def split: sum.splits)
  define m0 where "m0 = \<lparr> fit_cls = c, model = name, model_class = mc, prior = pr,
     mb_kobs = init_model_images obs, nband = length obs,
     n_prior_pars = set_n_prior_pars c pr (length obs), totpix = set_totpix obs,
     fdiff_size = set_fdiff_size (set_n_prior_pars c pr (length obs)) (set_totpix obs),
     npars = np, band_pars = replicate (nat (np - int (length obs) + 1)) 0 \<rparr>"
  have m: "m = snd (check_guess R m0 guess)"
    using assms mc np
    by (auto simp: construct_def name_def[symmetric] Let_def m0_def split: sum.splits prod.splits)
  have npv: "np = int (nshared c) + int (length obs)"
    using mc np
    by (cases c) (auto simp: set_model_class_def get_galsim_npars_def nshared_def name_def
                    split: if_splits)
  have sizes: "map (\<lambda>k. length (kimage k)) (concat (map (map init_kobs) obs)) =
               map (\<lambda>k. length (kimage k)) (concat obs)"
    by (induction obs) (auto simp: init_kobs_def kobs_data.extend_def)
  have bufs: "list_all (list_all (\<lambda>k. length (kmodel k) = length (kimage k) \<and>
                            length (scratch k) = length (kimage k) \<and>
                            length (ierr k) = length (weight k))) (map (map init_kobs) obs)"
    by (simp add: list_all_iff init_kobs_def kobs_data.extend_def)
  have "model_inv m0"
    unfolding model_inv_def
    using npv sizes bufs mc np
    by (simp add: m0_def init_model_images_def set_totpix_sum set_fdiff_size_def)
  then show ?thesis
    using check_guess_same_setup[of False m0 R guess] m model_inv_same_setup by blast
qed

lemma constructed_inv: "constructed R L m \<Longrightarrow> model_inv m"
proof (induction rule: constructed.induct)
  case (new c obs mdl guess pr m)
  then show ?case by (rule construct_inv)
next
  case (after_calc_fdiff m pars)
  then show ?case using calc_fdiff_same_setup model_inv_same_setup by blast
next
  case (after_calc_s2n_r m pars)
  then show ?case using calc_s2n_r_same_setup model_inv_same_setup by blast
qed

lemma model_inv_names:
  assumes "model_inv m"
  shows "(model m \<in> {''exp'', ''dev'', ''gauss''} \<and> fit_cls m = GalsimFitModel \<and> nshared (fit_cls m) = 5) \<or>
         (model m \<in> {''spergel'', ''moffat''} \<and> fit_cls m \<noteq> GalsimFitModel \<and> nshared (fit_cls m) = 6)"
  using assms
  by (cases "fit_cls m")
     (auto simp: model_inv_def set_model_class_def get_galsim_npars_def nshared_def split: if_splits)

lemma band_pars_into_ok:
  assumes "length buf = k + 1" and "k + b < length p"
  shows "band_pars_into k buf p b = (None, take k p @ [p ! (k + b)])"
proof -
  have s: "setslice buf 0 k (take k p) = Inr (take k p @ drop k buf)"
    using assms by (simp add: setslice_def Let_def min_def)
  have g: "getitem p (k + b) = Inr (p ! (k + b))"
    using assms by (simp add: getitem_def)
  have lt: "length (take k p) = k" using assms by simp
  have d: "drop k buf = [buf ! k]"
    using assms by (metis Cons_nth_drop_Suc Suc_eq_plus1 drop_all lessI order_refl)
  have u: "setitem (take k p @ drop k buf) k (p ! (k + b)) = Inr (take k p @ [p ! (k + b)])"
    using assms lt d by (simp add: setitem_def list_update_append)
  show ?thesis by (simp add: band_pars_into_def s g u)
qed

lemma get_band_pars_ok:
  assumes "length buf = nshared c + 1" and "nshared c + b < length p"
  shows "get_band_pars c buf p b = (None, take (nshared c) p @ [p ! (nshared c + b)])"
  using assms band_pars_into_ok[of buf "nshared c" b p]
  by (cases c) (simp_all add: get_band_pars_def nshared_def)


section \<open>Parameter packing: the band slice\<close>

text \<open>The definitions that evaluating the examples unfolds.\<close>

lemmas eval_defs =
  construct_def set_model_class_def set_n_prior_pars_def set_totpix_def set_fdiff_size_def
  init_model_images_def init_kobs_def get_galsim_npars_def check_guess_def example_obs_def
  example_obs2_def example_guess2_def example_kobs_def example_model2_def example_spergel_def
  example_prior_def
  get_band_pars_def band_pars_into_def setslice_def setitem_def getitem_def make_model_def
  make_round_model_def example_renderer_def except_RuntimeError_def except_ValueError_def
  Let_def kobs_data.extend_def

lemma example_model2_construct:
  "construct example_renderer GalsimFitModel example_obs2 ''gauss'' example_guess2 None
     = Inr example_model2"
  by (simp add: eval_defs upt_rec numeral_2_eq_2)

lemma example_model2_constructed: "constructed example_renderer L example_model2"
  using example_model2_construct by (rule constructed.new)

text \<open>
  C7. For a constructed fit model, a parameter vector of the variant's total
  length and two distinct bands \<open>b\<close> and \<open>b'\<close> in range, the slice extracted
  for band \<open>b'\<close> is the shared leading parameters followed by the flux of band
  \<open>b'\<close> (5 leading parameters for exp, dev and gauss, 6 for spergel and
  moffat), and it stays the same when the flux entry of band \<open>b\<close> is changed.
\<close>

theorem get_band_pars_other_band:
  assumes "constructed R L m" and "int (length pars) = npars m"
    and "b < nband m" and "b' < nband m" and "b \<noteq> b'"
  shows "let k = (if model m \<in> {''exp'', ''dev'', ''gauss''} then 5 else 6) in
           model m \<in> {''exp'', ''dev'', ''gauss'', ''spergel'', ''moffat''} \<and>
           get_band_pars (fit_cls m) (band_pars m) pars b'
             = (None, take k pars @ [pars ! (k + b')]) \<and>
           get_band_pars (fit_cls m) (band_pars m) (pars[k + b := x]) b'
             = get_band_pars (fit_cls m) (band_pars m) pars b'"
proof -
  have inv: "model_inv m" using assms(1) by (rule constructed_inv)
  define k where "k = nshared (fit_cls m)"
  have kname: "k = (if model m \<in> {''exp'', ''dev'', ''gauss''} then 5 else 6)"
    and names: "model m \<in> {''exp'', ''dev'', ''gauss'', ''spergel'', ''moffat''}"
    using model_inv_names[OF inv] by (auto simp: k_def)
  have lb: "length (band_pars m) = k + 1" using inv by (simp add: model_inv_def k_def)
  have lp: "length pars = k + nband m" using inv assms(2) by (simp add: model_inv_def k_def)
  have a: "get_band_pars (fit_cls m) (band_pars m) pars b'
             = (None, take k pars @ [pars ! (k + b')])"
    unfolding k_def using lb lp assms(4) by (intro get_band_pars_ok) (simp_all add: k_def)
  have b: "get_band_pars (fit_cls m) (band_pars m) (pars[k + b := x]) b'
             = (None, take k (pars[k + b := x]) @ [pars[k + b := x] ! (k + b')])"
    unfolding k_def using lb lp assms(4) by (intro get_band_pars_ok) (simp_all add: k_def)
  have "take k (pars[k + b := x]) = take k pars" by simp
  moreover have "pars[k + b := x] ! (k + b') = pars ! (k + b')" using assms(5) by simp
  ultimately show ?thesis using a b names kname by (simp add: Let_def)
qed

theorem get_band_pars_other_band_witness:
  "get_band_pars GalsimFitModel [0, 0, 0, 0, 3 / 10, 200] [1, 2, 3, 4, 5, 6, 7] 1
     = (None, [1, 2, 3, 4, 5, 7]) \<and>
   get_band_pars GalsimFitModel [0, 0, 0, 0, 3 / 10, 200] [1, 2, 3, 4, 5, 9, 7] 1
     = get_band_pars GalsimFitModel [0, 0, 0, 0, 3 / 10, 200] [1, 2, 3, 4, 5, 6, 7] 1"
  using get_band_pars_other_band [of example_renderer 0 example_model2 "[1, 2, 3, 4, 5, 6, 7]" 0 1 9]
    example_model2_constructed [of 0]
  by (simp add: example_model2_def Let_def)


section \<open>Prior terms, round models and moments\<close>

lemma example_spergel_construct:
  "construct example_renderer GalsimSpergelFitModel example_obs2 [] [0, 0, 0, 0, 3 / 10, 1 / 2, 100, 200]
     (Some example_prior) = Inr example_spergel"
  by (simp add: eval_defs upt_rec numeral_2_eq_2)

lemma example_spergel_constructed: "constructed example_renderer L example_spergel"
  using example_spergel_construct by (rule constructed.new)

text \<open>
  C5 (as the code has it). Whenever a prior is configured, the number of prior
  penalty terms of a constructed fit model is \<open>4 + nband\<close> for exp, dev and
  gauss and \<open>5 + nband\<close> for spergel and moffat: the centre counts for two
  terms (c1 and c2), the ellipticity, the size and the extra shape parameter for
  one each, and every band for one.
\<close>

theorem n_prior_pars_constructed:
  assumes "constructed R L m" and "prior m \<noteq> None"
  shows "model m \<in> {''exp'', ''dev'', ''gauss'', ''spergel'', ''moffat''} \<and>
         (model m \<in> {''exp'', ''dev'', ''gauss''} \<longrightarrow> n_prior_pars m = 4 + nband m) \<and>
         (model m \<in> {''spergel'', ''moffat''} \<longrightarrow> n_prior_pars m = 5 + nband m)"
proof -
  have inv: "model_inv m" using assms(1) by (rule constructed_inv)
  have npp: "n_prior_pars m = set_n_prior_pars (fit_cls m) (prior m) (nband m)"
    using inv by (simp add: model_inv_def)
  from assms(2) obtain pr where pr: "prior m = Some pr" by auto
  show ?thesis
    using model_inv_names[OF inv] npp pr
    by (cases "fit_cls m") (auto simp: set_n_prior_pars_def)
qed

theorem n_prior_pars_constructed_witness:
  "prior example_spergel \<noteq> None \<and> model example_spergel = ''spergel'' \<and>
   nband example_spergel = 2 \<and> n_prior_pars example_spergel = 5 + 2"
  using n_prior_pars_constructed [of example_renderer 0 example_spergel]
    example_spergel_constructed [of 0]
  by (simp add: example_spergel_def)

text \<open>
  The count \<open>3 + nband\<close> fails on the Gaussian model that the constructor
  builds on the one-band example with a prior: it has five prior terms.
\<close>

theorem n_prior_pars_counterexample:
  "map_sum id (\<lambda>m. (model m, nband m, n_prior_pars m, n_prior_pars m = 3 + nband m))
     (construct example_renderer GalsimFitModel example_obs ''gauss'' [0, 0, 0, 0, 3 / 10, 100]
        (Some example_prior))
   = Inr (''gauss'', 1, 5, False)"
  by (simp add: eval_defs)

lemma make_round_model_low_r50:
  assumes "6 \<le> length pars" and "pars ! 4 < 1 / 10000"
  shows "make_round_model R GalsimFitModel mc pars = Inl GMixRangeError"
  using assms by (simp add: make_round_model_def getitem_def)

text \<open>
  C4. The Spergel and Moffat classes override \<open>make_round_model\<close> without the
  size test of the base class: with a renderer that accepts the size, a slice
  whose size entry is \<open>0.00005\<close>, below the threshold \<open>0.0001\<close>, yields a
  profile and no invalid-model-parameters error.
\<close>

theorem make_round_model_override_small_size:
  "make_round_model example_renderer GalsimSpergelFitModel Spergel
     [0, 0, 0, 0, 1 / 20000, 1 / 2, 1] = Inr (1 / 20000, 1) \<and>
   make_round_model example_renderer GalsimMoffatFitModel Moffat
     [0, 0, 0, 0, 1 / 20000, 5 / 2, 1] = Inr (1 / 20000, 1) \<and>
   make_round_model example_renderer GalsimFitModel Gaussian
     [0, 0, 0, 0, 1 / 20000, 1] = Inl GMixRangeError"
  by (simp add: make_round_model_def getitem_def example_renderer_def except_RuntimeError_def)

text \<open>
  C10. \<open>_measure_moments\<close> rescales by the pixel area only when the moments
  measurement succeeded: with non-zero flags the result is returned as it is;
  with zero flags (and a non-zero area and the six parameters present) flux,
  flux_err, pars[5], sums, sums_norm, wsum and sums_err are multiplied by
  \<open>1/area\<close> and sums_cov by its square.
\<close>

theorem measure_moments_gate:
  "(res_flags res \<noteq> 0 \<longrightarrow> measure_moments res area = Inr res) \<and>
   (res_flags res = 0 \<longrightarrow> area \<noteq> 0 \<longrightarrow> 5 < length (res_pars res) \<longrightarrow>
      measure_moments res area =
        Inr (res\<lparr> res_flux := res_flux res * (1 / area),
                  res_flux_err := res_flux_err res * (1 / area),
                  res_pars := (res_pars res)[5 := res_pars res ! 5 * (1 / area)],
                  res_sums := map (\<lambda>x. x * (1 / area)) (res_sums res),
                  res_sums_cov := map (map (\<lambda>x. x * (1 / area)\<^sup>2)) (res_sums_cov res),
                  res_sums_norm := res_sums_norm res * (1 / area),
                  res_wsum := res_wsum res * (1 / area),
                  res_sums_err := map (\<lambda>x. x * (1 / area)) (res_sums_err res) \<rparr>))"
  by (simp add: measure_moments_def getitem_def Let_def)

theorem measure_moments_gate_witness:
  "measure_moments (example_res 1) 2 = Inr (example_res 1) \<and>
   measure_moments (example_res 0) 2 =
     Inr \<lparr> res_flags = 0, res_flux = 4, res_flux_err = 1, res_pars = [0, 0, 0, 0, 1, 4],
           res_sums = [2], res_sums_cov = [[4]], res_sums_norm = 1, res_wsum = 3,
           res_sums_err = [2] \<rparr>"
  using measure_moments_gate [of "example_res 1" 2] measure_moments_gate [of "example_res 0" 2]
  by (simp add: example_res_def power2_eq_square)


section \<open>Construction: the guess is checked\<close>

lemma get_band_pars_slice:
  assumes "length buf = nshared c + 1" and "nshared c + b < length p"
  shows "get_band_pars c buf p b = (None, band_slice c p b)"
    and "length (band_slice c p b) = nshared c + 1"
  using assms get_band_pars_ok[of buf c b p] by (simp_all add: band_slice_def)

lemma check_guess_bands_all_ok:
  assumes "length buf = nshared c + 1"
    and "\<forall>b\<in>set bs. nshared c + b < length guess"
    and "\<forall>b\<in>set bs. \<exists>gal. make_model R c mc (band_slice c guess b) = Inr gal"
  shows "fst (check_guess_bands R c mc guess bs buf) = None"
  using assms
proof (induction bs arbitrary: buf)
  case Nil
  show ?case by simp
next
  case (Cons b bs)
  have g: "get_band_pars c buf guess b = (None, band_slice c guess b)"
    and l: "length (band_slice c guess b) = nshared c + 1"
    using Cons.prems(1,2) by (simp_all add: get_band_pars_slice)
  from Cons.prems(3) obtain gal where mk: "make_model R c mc (band_slice c guess b) = Inr gal"
    by auto
  have "fst (check_guess_bands R c mc guess bs (band_slice c guess b)) = None"
    using Cons.prems(2,3) l by (intro Cons.IH) simp_all
  then show ?case by (simp add: g mk)
qed

lemma check_guess_bands_first_fail:
  assumes "length buf = nshared c + 1"
    and "\<forall>b'\<in>set bs1. nshared c + b' < length guess" and "nshared c + b < length guess"
    and "\<forall>b'\<in>set bs1. \<exists>gal. make_model R c mc (band_slice c guess b') = Inr gal"
    and "make_model R c mc (band_slice c guess b) = Inl e"
  shows "fst (check_guess_bands R c mc guess (bs1 @ b # bs2) buf) = Some e"
  using assms
proof (induction bs1 arbitrary: buf)
  case Nil
  have g: "get_band_pars c buf guess b = (None, band_slice c guess b)"
    using Nil.prems(1,3) by (simp add: get_band_pars_slice)
  show ?case by (simp add: g Nil.prems(5))
next
  case (Cons a bs1)
  have g: "get_band_pars c buf guess a = (None, band_slice c guess a)"
    and l: "length (band_slice c guess a) = nshared c + 1"
    using Cons.prems(1,2) by (simp_all add: get_band_pars_slice)
  from Cons.prems(4) obtain gal where mk: "make_model R c mc (band_slice c guess a) = Inr gal"
    by auto
  have "fst (check_guess_bands R c mc guess (bs1 @ b # bs2) (band_slice c guess a)) = Some e"
    using Cons.prems l by (intro Cons.IH) simp_all
  then show ?case by (simp add: g mk)
qed

lemma construct_unfold:
  assumes "name = (case c of GalsimFitModel \<Rightarrow> mdl | GalsimSpergelFitModel \<Rightarrow> ''spergel''
                   | GalsimMoffatFitModel \<Rightarrow> ''moffat'')"
    and "set_model_class c name = Inr mc"
    and "get_galsim_npars name (int (length obs)) = Inr np"
  shows "np = int (nshared c) + int (length obs)"
    and "construct R c obs mdl guess pr =
       (if int (length guess) \<noteq> np then Inl ValueError
        else case fst (check_guess_bands R c mc guess [0..<length obs]
                         (replicate (nshared c + 1) 0)) of
               Some e \<Rightarrow> Inl e
             | None \<Rightarrow> Inr (snd (check_guess R
                 \<lparr> fit_cls = c, model = name, model_class = mc, prior = pr,
                   mb_kobs = init_model_images obs, nband = length obs,
                   n_prior_pars = set_n_prior_pars c pr (length obs), totpix = set_totpix obs,
                   fdiff_size = set_fdiff_size (set_n_prior_pars c pr (length obs)) (set_totpix obs),
                   npars = np, band_pars = replicate (nshared c + 1) 0 \<rparr> guess)))"
proof -
  show npv: "np = int (nshared c) + int (length obs)"
    using assms
    by (cases c) (auto simp: set_model_class_def get_galsim_npars_def nshared_def
                    split: if_splits)
  then have n: "nat (np - int (length obs) + 1) = nshared c + 1" by simp
  show "construct R c obs mdl guess pr =
       (if int (length guess) \<noteq> np then Inl ValueError
        else case fst (check_guess_bands R c mc guess [0..<length obs]
                         (replicate (nshared c + 1) 0)) of
               Some e \<Rightarrow> Inl e
             | None \<Rightarrow> Inr (snd (check_guess R
                 \<lparr> fit_cls = c, model = name, model_class = mc, prior = pr,
                   mb_kobs = init_model_images obs, nband = length obs,
                   n_prior_pars = set_n_prior_pars c pr (length obs), totpix = set_totpix obs,
                   fdiff_size = set_fdiff_size (set_n_prior_pars c pr (length obs)) (set_totpix obs),
                   npars = np, band_pars = replicate (nshared c + 1) 0 \<rparr> guess)))"
    using assms(2,3) n
    by (simp add: construct_def assms(1)[symmetric] Let_def check_guess_def
          split: prod.splits option.splits)
qed

text \<open>
  C9. At construction (for a model name the class supports, \<open>np\<close> being the
  variant's total parameter count): a guess whose length differs from \<open>np\<close>
  makes the constructor raise \<open>ValueError\<close>; otherwise a trial model is built
  from the guess for every band in turn and the first failure is raised by the
  constructor as it is; the constructor returns a fit model exactly when the
  length is right and every band's trial model can be built.
\<close>

theorem construct_checks_guess:
  assumes "name = (case c of GalsimFitModel \<Rightarrow> mdl | GalsimSpergelFitModel \<Rightarrow> ''spergel''
                   | GalsimMoffatFitModel \<Rightarrow> ''moffat'')"
    and "set_model_class c name = Inr mc"
    and "get_galsim_npars name (int (length obs)) = Inr np"
  shows "(int (length guess) \<noteq> np \<longrightarrow> construct R c obs mdl guess pr = Inl ValueError) \<and>
         (int (length guess) = np \<longrightarrow> b < length obs \<longrightarrow>
            (\<forall>b'<b. \<exists>gal. make_model R c mc (band_slice c guess b') = Inr gal) \<longrightarrow>
            make_model R c mc (band_slice c guess b) = Inl e \<longrightarrow>
            construct R c obs mdl guess pr = Inl e) \<and>
         ((\<exists>m. construct R c obs mdl guess pr = Inr m) \<longleftrightarrow>
            int (length guess) = np \<and>
            (\<forall>b<length obs. \<exists>gal. make_model R c mc (band_slice c guess b) = Inr gal))"
proof -
  note u = construct_unfold(1)[OF assms]
    construct_unfold(2)[OF assms, where R = R and guess = guess and pr = pr]
  let ?buf = "replicate (nshared c + 1) (0::real)"
  have fail: "construct R c obs mdl guess pr = Inl e'"
    if len: "int (length guess) = np" and b: "b < length obs"
      and ok: "\<forall>b'<b. \<exists>gal. make_model R c mc (band_slice c guess b') = Inr gal"
      and bad: "make_model R c mc (band_slice c guess b) = Inl e'" for b e'
  proof -
    have lg: "length guess = nshared c + length obs" using len u(1) by simp
    have split: "[0..<length obs] = [0..<b] @ b # [Suc b..<length obs]"
      using b upt_add_eq_append[of 0 b "length obs - b"] by (simp add: upt_conv_Cons)
    have "fst (check_guess_bands R c mc guess ([0..<b] @ b # [Suc b..<length obs]) ?buf) = Some e'"
      using lg b ok bad by (intro check_guess_bands_first_fail) simp_all
    then show ?thesis using len by (simp add: u(2) split[symmetric])
  qed
  have succ: "\<exists>m. construct R c obs mdl guess pr = Inr m"
    if len: "int (length guess) = np"
      and ok: "\<forall>b<length obs. \<exists>gal. make_model R c mc (band_slice c guess b) = Inr gal"
  proof -
    have lg: "length guess = nshared c + length obs" using len u(1) by simp
    have "fst (check_guess_bands R c mc guess [0..<length obs] ?buf) = None"
      using lg ok by (intro check_guess_bands_all_ok) simp_all
    then show ?thesis using len by (simp add: u(2))
  qed
  have only: "int (length guess) = np \<and>
              (\<forall>b<length obs. \<exists>gal. make_model R c mc (band_slice c guess b) = Inr gal)"
    if m: "construct R c obs mdl guess pr = Inr m" for m
  proof (intro conjI allI impI)
    show len: "int (length guess) = np" using m by (auto simp: u(2) split: if_splits)
    fix b assume b: "b < length obs"
    show "\<exists>gal. make_model R c mc (band_slice c guess b) = Inr gal"
    proof (rule ccontr)
      assume "\<not> (\<exists>gal. make_model R c mc (band_slice c guess b) = Inr gal)"
      then have ex: "\<exists>b. b < length obs \<and> (\<forall>gal. make_model R c mc (band_slice c guess b) \<noteq> Inr gal)"
        using b by blast
      define b0 where "b0 = (LEAST b. b < length obs \<and>
                               (\<forall>gal. make_model R c mc (band_slice c guess b) \<noteq> Inr gal))"
      have b0: "b0 < length obs \<and> (\<forall>gal. make_model R c mc (band_slice c guess b0) \<noteq> Inr gal)"
        unfolding b0_def using ex by (rule LeastI_ex)
      have before: "\<forall>b'<b0. \<exists>gal. make_model R c mc (band_slice c guess b') = Inr gal"
      proof (intro allI impI)
        fix b' assume "b' < b0"
        then have "\<not> (b' < length obs \<and> (\<forall>gal. make_model R c mc (band_slice c guess b') \<noteq> Inr gal))"
          unfolding b0_def by (rule not_less_Least)
        moreover have "b' < length obs" using \<open>b' < b0\<close> b0 by simp
        ultimately show "\<exists>gal. make_model R c mc (band_slice c guess b') = Inr gal" by blast
      qed
      from b0 obtain e0 where "make_model R c mc (band_slice c guess b0) = Inl e0"
        by (cases "make_model R c mc (band_slice c guess b0)") auto
      then have "construct R c obs mdl guess pr = Inl e0"
        using fail[OF len _ before] b0 by blast
      with m show False by simp
    qed
  qed
  have wrong: "construct R c obs mdl guess pr = Inl ValueError" if "int (length guess) \<noteq> np"
    using that by (simp add: u(2))
  have iff: "(\<exists>m. construct R c obs mdl guess pr = Inr m) \<longleftrightarrow>
            int (length guess) = np \<and>
            (\<forall>b<length obs. \<exists>gal. make_model R c mc (band_slice c guess b) = Inr gal)"
    using succ only by blast
  show ?thesis using wrong fail[of b e] iff by blast
qed

theorem construct_checks_guess_witness:
  "construct example_renderer GalsimFitModel example_obs2 ''gauss'' [0, 0, 0, 0, 3 / 10, 100] None
     = Inl ValueError \<and>
   make_model example_renderer GalsimFitModel Gaussian
     (band_slice GalsimFitModel [0, 0, 3 / 2, 0, 3 / 10, 100, 200] 0) = Inl GMixRangeError \<and>
   construct example_renderer GalsimFitModel example_obs2 ''gauss''
     [0, 0, 3 / 2, 0, 3 / 10, 100, 200] None = Inl GMixRangeError \<and>
   (\<exists>m. construct example_renderer GalsimFitModel example_obs2 ''gauss''
          [0, 0, 0, 0, 3 / 10, 100, 200] None = Inr m)"
proof -
  have np: "get_galsim_npars ''gauss'' (int (length example_obs2)) = Inr 7"
    by (simp add: get_galsim_npars_def example_obs2_def example_obs_def)
  have mc: "set_model_class GalsimFitModel ''gauss'' = Inr Gaussian"
    by (simp add: set_model_class_def)
  have nm: "''gauss'' = (case GalsimFitModel of GalsimFitModel \<Rightarrow> ''gauss''
       | GalsimSpergelFitModel \<Rightarrow> ''spergel'' | GalsimMoffatFitModel \<Rightarrow> ''moffat'')"
    by simp
  have bad: "make_model example_renderer GalsimFitModel Gaussian
     (band_slice GalsimFitModel [0, 0, 3 / 2, 0, 3 / 10, 100, 200] 0) = Inl GMixRangeError"
    by (simp add: band_slice_def nshared_def eval_defs)
  have g0: "make_model example_renderer GalsimFitModel Gaussian
      (band_slice GalsimFitModel [0, 0, 0, 0, 3 / 10, 100, 200] 0) = Inr (3 / 10, 100)"
    by (simp add: band_slice_def nshared_def eval_defs)
  have g1: "make_model example_renderer GalsimFitModel Gaussian
      (band_slice GalsimFitModel [0, 0, 0, 0, 3 / 10, 100, 200] 1) = Inr (3 / 10, 200)"
    by (simp add: band_slice_def nshared_def eval_defs)
  have len2: "length example_obs2 = 2" by (simp add: example_obs2_def example_obs_def)
  have good: "\<forall>b<length example_obs2. \<exists>gal. make_model example_renderer GalsimFitModel Gaussian
      (band_slice GalsimFitModel [0, 0, 0, 0, 3 / 10, 100, 200] b) = Inr gal"
  proof (intro allI impI)
    fix b assume "b < length example_obs2"
    then have "b = 0 \<or> b = 1" using len2 by auto
    then show "\<exists>gal. make_model example_renderer GalsimFitModel Gaussian
      (band_slice GalsimFitModel [0, 0, 0, 0, 3 / 10, 100, 200] b) = Inr gal"
      using g0 g1 by blast
  qed
  have l2: "0 < length example_obs2" by (simp add: example_obs2_def example_obs_def)
  have a: "construct example_renderer GalsimFitModel example_obs2 ''gauss''
             [0, 0, 0, 0, 3 / 10, 100] None = Inl ValueError"
    using construct_checks_guess [OF nm mc np, of "[0, 0, 0, 0, 3 / 10, 100]" example_renderer None 0 GMixRangeError]
    by simp
  have b: "construct example_renderer GalsimFitModel example_obs2 ''gauss''
             [0, 0, 3 / 2, 0, 3 / 10, 100, 200] None = Inl GMixRangeError"
    using construct_checks_guess [OF nm mc np, of "[0, 0, 3 / 2, 0, 3 / 10, 100, 200]" example_renderer None 0 GMixRangeError]
      bad l2
    by simp
  have c: "\<exists>m. construct example_renderer GalsimFitModel example_obs2 ''gauss''
          [0, 0, 0, 0, 3 / 10, 100, 200] None = Inr m"
    using construct_checks_guess [OF nm mc np, of "[0, 0, 0, 0, 3 / 10, 100, 200]" example_renderer None 0 GMixRangeError]
      good
    by simp
  show ?thesis using a b c bad by simp
qed


section \<open>Residual assembler: length of the residual vector\<close>

lemma fill_priors_length:
  "fill_priors m pars fd = Inr (fd', st) \<Longrightarrow> length fd' = length fd"
  by (auto simp: fill_priors_def split: option.splits sum.splits dest: setslice_length)

lemma fdiff_kobs_length:
  assumes "fst (fdiff_kobs fd st k) = Inr (fd', st')"
  shows "length fd' = length fd"
  using assms
  by (auto simp: fdiff_kobs_def Let_def split: sum.splits dest!: setslice_length)

lemma fdiff_epochs_length:
  "fst (fdiff_epochs fd st ks) = Inr (fd', st') \<Longrightarrow> length fd' = length fd"
proof (induction ks arbitrary: fd st)
  case Nil
  then show ?case by simp
next
  case (Cons k ks)
  obtain r k' where kk: "fdiff_kobs fd st k = (r, k')" by (cases "fdiff_kobs fd st k")
  show ?case
  proof (cases r)
    case (Inl e)
    with kk Cons.prems show ?thesis by simp
  next
    case (Inr x)
    obtain fd1 st1 where x: "x = (fd1, st1)" by (cases x)
    have l1: "length fd1 = length fd"
      using fdiff_kobs_length[of fd st k fd1 st1] kk Inr x by simp
    have "fst (fdiff_epochs fd1 st1 ks) = Inr (fd', st')"
      using Cons.prems kk Inr x by (simp split: prod.splits)
    then have "length fd' = length fd1" by (rule Cons.IH)
    with l1 show ?thesis by simp
  qed
qed

lemma fdiff_bands_length:
  "fst (fdiff_bands bs fd st mb) = Inr (fd', st') \<Longrightarrow> length fd' = length fd"
proof (induction bs arbitrary: fd st mb)
  case Nil
  then show ?case by simp
next
  case (Cons b bs)
  show ?case
  proof (cases "getitem mb b")
    case (Inl e)
    with Cons.prems show ?thesis by simp
  next
    case (Inr kl)
    obtain r kl' where ep: "fdiff_epochs fd st kl = (r, kl')" by (cases "fdiff_epochs fd st kl")
    show ?thesis
    proof (cases r)
      case (Inl e)
      with Cons.prems Inr ep show ?thesis by simp
    next
      case r: (Inr x)
      obtain fd1 st1 where x: "x = (fd1, st1)" by (cases x)
      have l1: "length fd1 = length fd"
        using fdiff_epochs_length[of fd st kl fd1 st1] ep r x by simp
      have "fst (fdiff_bands bs fd1 st1 (mb[b := kl'])) = Inr (fd', st')"
        using Cons.prems Inr ep r x by simp
      then have "length fd' = length fd1" by (rule Cons.IH)
      with l1 show ?thesis by simp
    qed
  qed
qed

lemma calc_fdiff_try_length:
  assumes "fst (calc_fdiff_try R m pars fd) = Inr v"
  shows "length v = length fd"
proof -
  obtain r m1 where fm: "fill_models R m pars = (r, m1)" by (cases "fill_models R m pars")
  from assms fm have r: "r = None" by (cases r) (simp_all add: calc_fdiff_try_def)
  from assms fm r obtain fd0 st where fp: "fill_priors m1 pars fd = Inr (fd0, st)"
    by (cases "fill_priors m1 pars fd") (auto simp: calc_fdiff_try_def)
  have l0: "length fd0 = length fd" using fp by (rule fill_priors_length)
  obtain r2 mb where fb: "fdiff_bands [0..<nband m1] fd0 st (mb_kobs m1) = (r2, mb)"
    by (cases "fdiff_bands [0..<nband m1] fd0 st (mb_kobs m1)")
  from assms fm r fp fb obtain st' where r2: "r2 = Inr (v, st')"
    by (cases r2) (auto simp: calc_fdiff_try_def)
  have "length v = length fd0"
    using fdiff_bands_length[of "[0..<nband m1]" fd0 st "mb_kobs m1" v st'] fb r2 by simp
  with l0 show ?thesis by simp
qed

lemma calc_fdiff_result_length:
  assumes "fst (calc_fdiff R L m pars) = Inr v"
  shows "length v = fdiff_size m"
proof -
  let ?fd = "replicate (fdiff_size m) (0::real)"
  obtain r m' where t: "calc_fdiff_try R m pars ?fd = (r, m')"
    by (cases "calc_fdiff_try R m pars ?fd")
  show ?thesis
  proof (cases r)
    case (Inl e)
    with assms t show ?thesis
      by (auto simp: calc_fdiff_def Let_def setslice_scalar_length split: if_splits)
  next
    case (Inr fd')
    with assms t have "fd' = v" by (simp add: calc_fdiff_def Let_def)
    with calc_fdiff_try_length[of R m pars ?fd v] t Inr show ?thesis by simp
  qed
qed

text \<open>
  C2. For every constructed fit model and every parameter vector, a residual
  vector that \<open>calc_fdiff\<close> returns has length \<open>n_prior_pars + 2 * totpix\<close>,
  where \<open>totpix\<close> is the sum of the sizes of the Fourier data arrays over all
  bands and epochs and \<open>n_prior_pars\<close> is 0 when no prior is configured.
\<close>

theorem calc_fdiff_length:
  assumes "constructed R L m" and "fst (calc_fdiff R L m pars) = Inr v"
  shows "length v = n_prior_pars m + 2 * totpix m \<and>
         totpix m = sum_list (map (\<lambda>k. length (kimage k)) (concat (mb_kobs m))) \<and>
         (prior m = None \<longrightarrow> n_prior_pars m = 0)"
proof -
  have inv: "model_inv m" using assms(1) by (rule constructed_inv)
  have "length v = fdiff_size m" using assms(2) by (rule calc_fdiff_result_length)
  moreover have "prior m = None \<longrightarrow> n_prior_pars m = 0"
    using inv by (cases "fit_cls m") (auto simp: model_inv_def set_n_prior_pars_def)
  ultimately show ?thesis using inv by (simp add: model_inv_def)
qed

text \<open>More definitions that evaluating the examples unfolds.\<close>

lemmas calc_defs =
  calc_fdiff_def calc_fdiff_try_def fill_models_def fill_priors_def fdiff_kobs_def inplace_def
  setslice_scalar_def

lemma example_calc_fdiff:
  "fst (calc_fdiff example_renderer L example_model2 [0, 0, 0, 0, 3 / 10, 3, 4])
     = Inr [2, 0, - 2, 0, 3, 0, - 2, 0]"
  by (simp add: calc_defs eval_defs upt_rec numeral_2_eq_2)

theorem calc_fdiff_length_witness:
  "fst (calc_fdiff example_renderer 0 example_model2 [0, 0, 0, 0, 3 / 10, 3, 4])
     = Inr [2, 0, - 2, 0, 3, 0, - 2, 0] \<and>
   length [2, 0, - 2, 0, 3, 0, - 2, 0 :: real]
     = n_prior_pars example_model2 + 2 * totpix example_model2 \<and>
   prior example_model2 = None \<and> n_prior_pars example_model2 = 0"
  using calc_fdiff_length [of example_renderer 0 example_model2 "[0, 0, 0, 0, 3 / 10, 3, 4]"
      "[2, 0, - 2, 0, 3, 0, - 2, 0]"]
    example_model2_constructed [of 0] example_calc_fdiff [of 0]
  by (simp add: example_model2_def)


section \<open>Residual assembler: the sentinel vector\<close>

lemma sentinel_on_range_error:
  assumes "fst (calc_fdiff_try R m pars (replicate (fdiff_size m) 0)) = Inl GMixRangeError"
  shows "fst (calc_fdiff R L m pars) = Inr (replicate (fdiff_size m) L)"
  using assms setslice_scalar_full[of "replicate (fdiff_size m) (0::real)" L]
  by (auto simp: calc_fdiff_def Let_def split: prod.splits sum.splits)

lemma calc_fdiff_try_fill_models:
  assumes "fst (fill_models R m pars) = Some e"
  shows "fst (calc_fdiff_try R m pars fd) = Inl e"
  using assms by (auto simp: calc_fdiff_try_def split: prod.splits option.splits)

lemma calc_fdiff_no_range_error: "fst (calc_fdiff R L m pars) \<noteq> Inl GMixRangeError"
  by (auto simp: calc_fdiff_def Let_def split: prod.splits sum.splits)

lemma fill_epochs_make_model_fails:
  assumes "make_model R c mc bp = Inl e" and "ks \<noteq> []"
  shows "fst (fill_epochs R c mc bp ks) = Some e"
  using assms by (cases ks) simp_all

lemma band_slice_nth:
  assumes "i < nshared c" and "nshared c \<le> length pars"
  shows "band_slice c pars b ! i = pars ! i"
  using assms by (simp add: band_slice_def nth_append)

lemma fill_bands_low_size:
  assumes "length buf = 6" and "length pars = 5 + band + length mb"
    and "pars ! 4 < 1 / 10000" and "concat mb \<noteq> []"
  shows "fst (fill_bands R GalsimFitModel mc pars band buf mb) = Some GMixRangeError"
  using assms
proof (induction mb arbitrary: band buf)
  case Nil
  then show ?case by simp
next
  case (Cons kl rest)
  have ns: "nshared GalsimFitModel = 5" by (simp add: nshared_def)
  have g: "get_band_pars GalsimFitModel buf pars band = (None, band_slice GalsimFitModel pars band)"
    and l: "length (band_slice GalsimFitModel pars band) = 6"
    using Cons.prems(1,2) get_band_pars_slice[of buf GalsimFitModel band pars] by (simp_all add: ns)
  have "band_slice GalsimFitModel pars band ! 4 = pars ! 4"
    using Cons.prems(2) by (intro band_slice_nth) (simp_all add: ns)
  then have mk: "make_model R GalsimFitModel mc (band_slice GalsimFitModel pars band) = Inl GMixRangeError"
    using l Cons.prems(3) make_round_model_low_r50[of "band_slice GalsimFitModel pars band" R mc]
    by (simp add: make_model_def)
  show ?case
  proof (cases "kl = []")
    case False
    then show ?thesis
      using g fill_epochs_make_model_fails[OF mk False]
      by (auto split: prod.splits option.splits)
  next
    case True
    then have "concat rest \<noteq> []" using Cons.prems(4) by simp
    then have "fst (fill_bands R GalsimFitModel mc pars (Suc band) (band_slice GalsimFitModel pars band) rest)
                 = Some GMixRangeError"
      using l Cons.prems(2,3) by (intro Cons.IH) simp_all
    then show ?thesis using g True by (auto split: prod.splits)
  qed
qed

text \<open>
  C1. When filling the models for a trial parameter vector raises the
  normalized invalid-model-parameters failure (\<open>GMixRangeError\<close>) in any band or
  epoch, \<open>calc_fdiff\<close> returns the residual vector of its full length
  \<open>n_prior_pars + 2 * totpix\<close> with every entry equal to \<open>LOWVAL\<close>; that failure
  never leaves \<open>calc_fdiff\<close>.  A size below the threshold is such a vector
  for the exp, dev and gauss models with at least one observation.
\<close>

theorem calc_fdiff_sentinel:
  assumes "constructed R LOWVAL m"
  shows "(fst (fill_models R m pars) = Some GMixRangeError \<longrightarrow>
            fst (calc_fdiff R LOWVAL m pars)
              = Inr (replicate (n_prior_pars m + 2 * totpix m) LOWVAL)) \<and>
         fst (calc_fdiff R LOWVAL m pars) \<noteq> Inl GMixRangeError \<and>
         (model m \<in> {''exp'', ''dev'', ''gauss''} \<longrightarrow> int (length pars) = npars m \<longrightarrow>
            pars ! 4 < 1 / 10000 \<longrightarrow> concat (mb_kobs m) \<noteq> [] \<longrightarrow>
            fst (fill_models R m pars) = Some GMixRangeError)"
proof -
  have inv: "model_inv m" using assms by (rule constructed_inv)
  have size: "fdiff_size m = n_prior_pars m + 2 * totpix m"
    using inv by (simp add: model_inv_def)
  have a: "fst (calc_fdiff R LOWVAL m pars)
              = Inr (replicate (n_prior_pars m + 2 * totpix m) LOWVAL)"
    if "fst (fill_models R m pars) = Some GMixRangeError"
    using sentinel_on_range_error[OF calc_fdiff_try_fill_models[OF that], of LOWVAL] size
    by simp
  have c: "fst (fill_models R m pars) = Some GMixRangeError"
    if nm: "model m \<in> {''exp'', ''dev'', ''gauss''}" and len: "int (length pars) = npars m"
      and small: "pars ! 4 < 1 / 10000" and obs: "concat (mb_kobs m) \<noteq> []"
  proof -
    have cls: "fit_cls m = GalsimFitModel" and ns: "nshared (fit_cls m) = 5"
      using model_inv_names[OF inv] nm by auto
    have "length (band_pars m) = 6" using inv ns by (simp add: model_inv_def)
    moreover have "length pars = 5 + 0 + length (mb_kobs m)"
      using inv ns len by (simp add: model_inv_def)
    ultimately have "fst (fill_bands R GalsimFitModel (model_class m) pars 0 (band_pars m) (mb_kobs m))
                       = Some GMixRangeError"
      using small obs by (rule fill_bands_low_size)
    then show ?thesis by (auto simp: fill_models_def cls split: prod.splits)
  qed
  show ?thesis using a c calc_fdiff_no_range_error[of R LOWVAL m pars] by blast
qed

lemma example_fill_models_shear:
  "fst (fill_models example_renderer example_model2 [0, 0, 3 / 2, 0, 3 / 10, 3, 4])
     = Some GMixRangeError"
  by (simp add: calc_defs eval_defs)

theorem calc_fdiff_sentinel_witness:
  "fst (fill_models example_renderer example_model2 [0, 0, 3 / 2, 0, 3 / 10, 3, 4])
     = Some GMixRangeError \<and>
   fst (calc_fdiff example_renderer (- 9999) example_model2 [0, 0, 3 / 2, 0, 3 / 10, 3, 4])
     = Inr (replicate 8 (- 9999)) \<and>
   fst (calc_fdiff example_renderer (- 9999) example_model2 [0, 0, 0, 0, 1 / 20000, 3, 4])
     = Inr (replicate 8 (- 9999))"
proof -
  note t1 = calc_fdiff_sentinel [OF example_model2_constructed [of "- 9999"],
      of "[0, 0, 3 / 2, 0, 3 / 10, 3, 4]"]
  note t2 = calc_fdiff_sentinel [OF example_model2_constructed [of "- 9999"],
      of "[0, 0, 0, 0, 1 / 20000, 3, 4]"]
  have a: "fst (calc_fdiff example_renderer (- 9999) example_model2 [0, 0, 3 / 2, 0, 3 / 10, 3, 4])
     = Inr (replicate 8 (- 9999))"
    using t1 example_fill_models_shear by (simp add: example_model2_def)
  have "fst (fill_models example_renderer example_model2 [0, 0, 0, 0, 1 / 20000, 3, 4])
     = Some GMixRangeError"
    using t2 by (simp add: example_model2_def example_kobs_def)
  then have b: "fst (calc_fdiff example_renderer (- 9999) example_model2 [0, 0, 0, 0, 1 / 20000, 3, 4])
     = Inr (replicate 8 (- 9999))"
    using t2 by (simp add: example_model2_def)
  show ?thesis using a b example_fill_models_shear by simp
qed


section \<open>Residual assembler: the result does not depend on buffer contents\<close>

lemma band_pars_into_fst_indep:
  assumes "length buf' = length buf"
  shows "fst (band_pars_into k buf' p b) = fst (band_pars_into k buf p b)"
  using assms
  by (auto simp: band_pars_into_def setslice_def setitem_def Let_def split: sum.splits if_splits)

lemma get_band_pars_indep:
  assumes "length buf = nshared c + 1" and "length buf' = nshared c + 1"
  shows "fst (get_band_pars c buf' p b) = fst (get_band_pars c buf p b)"
    and "fst (get_band_pars c buf p b) = None \<Longrightarrow>
         snd (get_band_pars c buf' p b) = snd (get_band_pars c buf p b)"
proof -
  show f: "fst (get_band_pars c buf' p b) = fst (get_band_pars c buf p b)"
    using assms band_pars_into_fst_indep[of buf' buf]
    by (cases c) (simp_all add: get_band_pars_def)
  assume ok: "fst (get_band_pars c buf p b) = None"
  have "nshared c + b < length p"
  proof (rule ccontr)
    assume "\<not> nshared c + b < length p"
    then have "fst (get_band_pars c buf p b) \<noteq> None"
      by (cases c)
         (auto simp: get_band_pars_def band_pars_into_def getitem_def nshared_def
               split: sum.splits)
    with ok show False by simp
  qed
  then show "snd (get_band_pars c buf' p b) = snd (get_band_pars c buf p b)"
    using assms by (simp add: get_band_pars_slice)
qed

lemma kobs_eqm_refl: "kobs_eqm k k"
  by (simp add: kobs_eqm_def kobs_rel_refl)

lemma kobs_eqm_rel: "kobs_eqm k k' \<Longrightarrow> kobs_rel True k k'"
  by (simp add: kobs_eqm_def)

lemma fill_epochs_indep:
  assumes "list_all2 (kobs_rel True) ks ks'"
  shows "fst (fill_epochs R c mc bp ks') = fst (fill_epochs R c mc bp ks) \<and>
         (fst (fill_epochs R c mc bp ks) = None \<longrightarrow>
            list_all2 kobs_eqm (snd (fill_epochs R c mc bp ks)) (snd (fill_epochs R c mc bp ks')))"
  using assms
proof (induction ks ks' rule: list_all2_induct)
  case Nil
  show ?case by simp
next
  case (Cons k ks k' ks')
  have kk: "psf k' = psf k" "length (kmodel k') = length (kmodel k)" "kobs_rel True k k'"
    "kmodel_geom k' = kmodel_geom k"
    using Cons.hyps(1) by (simp_all add: kobs_rel_def)
  show ?case
  proof (cases "make_model R c mc bp")
    case (Inl e)
    then show ?thesis by simp
  next
    case (Inr gal)
    show ?thesis
    proof (cases "gs_drawKImage_inplace R gal (kmodel_geom k) (length (kmodel k))")
      case (Inl e)
      with Inr kk show ?thesis by simp
    next
      case dr: (Inr f)
      let ?km = "map f [0..<length (kmodel k)]"
      show ?thesis
      proof (cases "case psf k of None \<Rightarrow> Inr ?km
                    | Some p \<Rightarrow> inplace GalSimValueError (\<lambda>x y. x * y) ?km p")
        case (Inl e)
        with Inr dr kk show ?thesis by (simp add: Let_def)
      next
        case ps: (Inr km')
        have "kobs_eqm (k\<lparr>kmodel := km'\<rparr>) (k'\<lparr>kmodel := km'\<rparr>)"
          using kk(3) by (simp add: kobs_eqm_def kobs_rel_def)
        with Inr dr ps kk Cons.IH show ?thesis
          by (auto simp: Let_def split: prod.splits)
      qed
    qed
  qed
qed

lemma fill_bands_indep:
  assumes "list_all2 (list_all2 (kobs_rel True)) mb mb'"
    and "length buf = nshared c + 1" and "length buf' = nshared c + 1"
  shows "fst (fill_bands R c mc pars band buf' mb') = fst (fill_bands R c mc pars band buf mb) \<and>
         (fst (fill_bands R c mc pars band buf mb) = None \<longrightarrow>
            list_all2 (list_all2 kobs_eqm)
              (snd (snd (fill_bands R c mc pars band buf mb)))
              (snd (snd (fill_bands R c mc pars band buf' mb'))))"
  using assms
proof (induction mb mb' arbitrary: band buf buf' rule: list_all2_induct)
  case Nil
  show ?case by simp
next
  case (Cons kl mb kl' mb')
  obtain r b1 where g: "get_band_pars c buf pars band = (r, b1)"
    by (cases "get_band_pars c buf pars band")
  obtain r' b1' where g': "get_band_pars c buf' pars band = (r', b1')"
    by (cases "get_band_pars c buf' pars band")
  have rr: "r' = r" and bb: "r = None \<Longrightarrow> b1' = b1"
    using get_band_pars_indep[OF Cons.prems, of pars band] g g' by simp_all
  have lb: "length b1 = nshared c + 1"
    using get_band_pars_length[of c buf pars band] g Cons.prems(1) by simp
  show ?case
  proof (cases r)
    case (Some e)
    with g g' rr show ?thesis by simp
  next
    case None
    then have b1': "b1' = b1" by (rule bb)
    obtain r2 k2 where e: "fill_epochs R c mc b1 kl = (r2, k2)"
      by (cases "fill_epochs R c mc b1 kl")
    obtain r2' k2' where e': "fill_epochs R c mc b1 kl' = (r2', k2')"
      by (cases "fill_epochs R c mc b1 kl'")
    have r2: "r2' = r2" and k2: "r2 = None \<Longrightarrow> list_all2 kobs_eqm k2 k2'"
      using fill_epochs_indep[OF Cons.hyps(1), of R c mc b1] e e' by simp_all
    show ?thesis
    proof (cases r2)
      case (Some e2)
      with g g' rr None b1' e e' r2 show ?thesis by simp
    next
      case n2: None
      note ih = Cons.IH[OF lb lb, of "Suc band"]
      show ?thesis
        using g g' rr None b1' e e' r2 n2 k2[OF n2] ih
        by (auto split: prod.splits)
    qed
  qed
qed

lemma map2_second: "length xs = length ys \<Longrightarrow> map2 (\<lambda>x y. y) xs ys = ys"
  by (induction xs ys rule: list_induct2) simp_all

lemma normalized_diff_steps:
  assumes "length km = length ki" and "length ki = length ie"
  shows "map2 (\<lambda>z w. Complex (Re z) (Im z * w))
           (map2 (\<lambda>z w. Complex (Re z * w) (Im z)) (map2 (\<lambda>x y. x - y) km ki) ie) ie
         = map (\<lambda>((mo, d), ie). Complex (Re (mo - d) * ie) (Im (mo - d) * ie))
             (zip (zip km ki) ie)"
  using assms by (induction km ki ie rule: list_induct3) simp_all

lemma fdiff_kobs_bad_scratch:
  assumes "length (kmodel k) \<noteq> length (scratch k)"
  shows "fdiff_kobs fd st k = (Inl ValueError, k)"
  using assms by (simp add: fdiff_kobs_def inplace_def)

lemma fdiff_kobs_bad_kimage:
  assumes "length (kmodel k) = length (scratch k)" and "length (kimage k) \<noteq> length (kmodel k)"
  shows "fdiff_kobs fd st k = (Inl GalSimValueError, k\<lparr>scratch := kmodel k\<rparr>)"
  using assms by (simp add: fdiff_kobs_def inplace_def map2_second)

lemma fdiff_kobs_bad_ierr:
  assumes "length (kmodel k) = length (scratch k)" and "length (kimage k) = length (kmodel k)"
    and "length (ierr k) \<noteq> length (kmodel k)"
  shows "fdiff_kobs fd st k
           = (Inl ValueError, k\<lparr>scratch := map2 (\<lambda>x y. x - y) (kmodel k) (kimage k)\<rparr>)"
  using assms by (simp add: fdiff_kobs_def inplace_def map2_second)

lemma fdiff_kobs_good:
  assumes "length (kmodel k) = length (scratch k)" and "length (kimage k) = length (kmodel k)"
    and "length (ierr k) = length (kmodel k)"
  shows "fdiff_kobs fd st k =
     (let nd = normalized_diff k; k' = k\<lparr>scratch := nd\<rparr>; imsize = length (kmodel k) in
      (case setslice fd st (st + imsize) (map Re nd) of
         Inl e \<Rightarrow> (Inl e, k')
       | Inr fd1 \<Rightarrow>
          (case setslice fd1 (st + imsize) (st + imsize + imsize) (map Im nd) of
             Inl e \<Rightarrow> (Inl e, k')
           | Inr fd2 \<Rightarrow> (Inr (fd2, st + imsize + imsize), k'))))"
proof -
  have nd: "map2 (\<lambda>z w. Complex (Re z) (Im z * w))
           (map2 (\<lambda>z w. Complex (Re z * w) (Im z))
              (map2 (\<lambda>x y. x - y) (kmodel k) (kimage k)) (ierr k)) (ierr k)
         = normalized_diff k"
    unfolding normalized_diff_def using assms by (intro normalized_diff_steps) simp_all
  have ln: "length (normalized_diff k) = length (kmodel k)"
    using assms by (simp add: normalized_diff_def)
  show ?thesis
    using assms
    by (simp add: fdiff_kobs_def inplace_def map2_second nd ln Let_def split: sum.splits)
qed

lemma fdiff_kobs_scratch:
  assumes "length s = length (scratch k)"
  shows "fst (fdiff_kobs fd st (k\<lparr>scratch := s\<rparr>)) = fst (fdiff_kobs fd st k)"
proof -
  let ?k = "k\<lparr>scratch := s\<rparr>"
  have nd: "normalized_diff ?k = normalized_diff k" by (simp add: normalized_diff_def)
  consider (a) "length (kmodel k) \<noteq> length (scratch k)"
    | (b) "length (kmodel k) = length (scratch k)" "length (kimage k) \<noteq> length (kmodel k)"
    | (c) "length (kmodel k) = length (scratch k)" "length (kimage k) = length (kmodel k)"
          "length (ierr k) \<noteq> length (kmodel k)"
    | (d) "length (kmodel k) = length (scratch k)" "length (kimage k) = length (kmodel k)"
          "length (ierr k) = length (kmodel k)"
    by blast
  then show ?thesis
  proof cases
    case a
    then show ?thesis
      using assms fdiff_kobs_bad_scratch[of k fd st] fdiff_kobs_bad_scratch[of ?k fd st] by simp
  next
    case b
    then show ?thesis
      using assms fdiff_kobs_bad_kimage[of k fd st] fdiff_kobs_bad_kimage[of ?k fd st] by simp
  next
    case c
    then show ?thesis
      using assms fdiff_kobs_bad_ierr[of k fd st] fdiff_kobs_bad_ierr[of ?k fd st] by simp
  next
    case d
    have "fst (fdiff_kobs fd st ?k) =
      (case setslice fd st (st + length (kmodel k)) (map Re (normalized_diff k)) of
         Inl e \<Rightarrow> Inl e
       | Inr fd1 \<Rightarrow>
          (case setslice fd1 (st + length (kmodel k)) (st + length (kmodel k) + length (kmodel k))
                  (map Im (normalized_diff k)) of
             Inl e \<Rightarrow> Inl e
           | Inr fd2 \<Rightarrow> Inr (fd2, st + length (kmodel k) + length (kmodel k))))"
      using d assms fdiff_kobs_good[of ?k fd st] nd by (simp add: Let_def split: sum.splits)
    moreover have "fst (fdiff_kobs fd st k) =
      (case setslice fd st (st + length (kmodel k)) (map Re (normalized_diff k)) of
         Inl e \<Rightarrow> Inl e
       | Inr fd1 \<Rightarrow>
          (case setslice fd1 (st + length (kmodel k)) (st + length (kmodel k) + length (kmodel k))
                  (map Im (normalized_diff k)) of
             Inl e \<Rightarrow> Inl e
           | Inr fd2 \<Rightarrow> Inr (fd2, st + length (kmodel k) + length (kmodel k))))"
      using d fdiff_kobs_good[of k fd st] by (simp add: Let_def split: sum.splits)
    ultimately show ?thesis by simp
  qed
qed

lemma fdiff_kobs_kmodel: "kmodel (snd (fdiff_kobs fd st k)) = kmodel k"
proof -
  consider (a) "length (kmodel k) \<noteq> length (scratch k)"
    | (b) "length (kmodel k) = length (scratch k)" "length (kimage k) \<noteq> length (kmodel k)"
    | (c) "length (kmodel k) = length (scratch k)" "length (kimage k) = length (kmodel k)"
          "length (ierr k) \<noteq> length (kmodel k)"
    | (d) "length (kmodel k) = length (scratch k)" "length (kimage k) = length (kmodel k)"
          "length (ierr k) = length (kmodel k)"
    by blast
  then show ?thesis
  proof cases
    case a
    then show ?thesis by (simp add: fdiff_kobs_bad_scratch)
  next
    case b
    then show ?thesis by (simp add: fdiff_kobs_bad_kimage)
  next
    case c
    then show ?thesis by (simp add: fdiff_kobs_bad_ierr)
  next
    case d
    then show ?thesis by (simp add: fdiff_kobs_good Let_def split: sum.splits)
  qed
qed

lemma fdiff_kobs_indep:
  assumes "kobs_eqm k k'"
  shows "fst (fdiff_kobs fd st k') = fst (fdiff_kobs fd st k)"
    and "kobs_eqm (snd (fdiff_kobs fd st k)) (snd (fdiff_kobs fd st k'))"
proof -
  have eq: "k' = k\<lparr>scratch := scratch k'\<rparr>" and l: "length (scratch k') = length (scratch k)"
    using assms by (simp_all add: kobs_eqm_def kobs_rel_def)
  show "fst (fdiff_kobs fd st k') = fst (fdiff_kobs fd st k)"
    using fdiff_kobs_scratch[OF l, of fd st] eq by simp
  have r1: "kobs_rel True k (snd (fdiff_kobs fd st k))" and r2: "kobs_rel True k' (snd (fdiff_kobs fd st k'))"
    by (rule fdiff_kobs_rel)+
  show "kobs_eqm (snd (fdiff_kobs fd st k)) (snd (fdiff_kobs fd st k'))"
    using assms r1 r2 fdiff_kobs_kmodel[of fd st k] fdiff_kobs_kmodel[of fd st k']
    by (simp add: kobs_eqm_def kobs_rel_def)
qed

lemma fdiff_epochs_indep:
  assumes "list_all2 kobs_eqm ks ks'"
  shows "fst (fdiff_epochs fd st ks') = fst (fdiff_epochs fd st ks) \<and>
         list_all2 kobs_eqm (snd (fdiff_epochs fd st ks)) (snd (fdiff_epochs fd st ks'))"
  using assms
proof (induction ks ks' arbitrary: fd st rule: list_all2_induct)
  case Nil
  show ?case by simp
next
  case (Cons k ks k' ks')
  obtain r k1 where a: "fdiff_kobs fd st k = (r, k1)" by (cases "fdiff_kobs fd st k")
  obtain r' k1' where a': "fdiff_kobs fd st k' = (r', k1')" by (cases "fdiff_kobs fd st k'")
  have rr: "r' = r" and kk: "kobs_eqm k1 k1'"
    using fdiff_kobs_indep[OF Cons.hyps(1), of fd st] a a' by simp_all
  show ?case
  proof (cases r)
    case (Inl e)
    with a a' rr kk Cons.hyps(2) show ?thesis by simp
  next
    case (Inr x)
    obtain fd1 st1 where x: "x = (fd1, st1)" by (cases x)
    show ?thesis
      using a a' rr kk Inr x Cons.IH[of fd1 st1] by (auto split: prod.splits)
  qed
qed

lemma fdiff_bands_indep:
  assumes "list_all2 (list_all2 kobs_eqm) mb mb'"
  shows "fst (fdiff_bands bs fd st mb') = fst (fdiff_bands bs fd st mb)"
  using assms
proof (induction bs arbitrary: fd st mb mb')
  case Nil
  show ?case by simp
next
  case (Cons b bs)
  have len: "length mb' = length mb" using Cons.prems by (simp add: list_all2_lengthD)
  show ?case
  proof (cases "b < length mb")
    case False
    with len show ?thesis by (simp add: getitem_def)
  next
    case True
    have rel: "list_all2 kobs_eqm (mb ! b) (mb' ! b)"
      using Cons.prems True by (rule list_all2_nthD)
    obtain r kl where e: "fdiff_epochs fd st (mb ! b) = (r, kl)"
      by (cases "fdiff_epochs fd st (mb ! b)")
    obtain r' kl' where e': "fdiff_epochs fd st (mb' ! b) = (r', kl')"
      by (cases "fdiff_epochs fd st (mb' ! b)")
    have rr: "r' = r" and kk: "list_all2 kobs_eqm kl kl'"
      using fdiff_epochs_indep[OF rel, of fd st] e e' by simp_all
    have upd: "list_all2 (list_all2 kobs_eqm) (mb[b := kl]) (mb'[b := kl'])"
      using Cons.prems kk by (rule list_all2_update_cong)
    show ?thesis
    proof (cases r)
      case (Inl e0)
      with True len e e' rr show ?thesis by (simp add: getitem_def)
    next
      case (Inr x)
      obtain fd1 st1 where x: "x = (fd1, st1)" by (cases x)
      show ?thesis
        using True len e e' rr Inr x Cons.IH[OF upd, of fd1 st1] by (simp add: getitem_def)
    qed
  qed
qed

lemma fill_priors_indep:
  assumes "prior m' = prior m" and "n_prior_pars m' = n_prior_pars m"
  shows "fill_priors m' pars fd = fill_priors m pars fd"
  unfolding fill_priors_def assms ..

lemma calc_fdiff_try_indep:
  assumes "model_inv m" and "same_setup True m m'"
  shows "fst (calc_fdiff_try R m' pars fd) = fst (calc_fdiff_try R m pars fd)"
proof -
  have c: "fit_cls m' = fit_cls m" "model_class m' = model_class m"
    and lb: "length (band_pars m) = nshared (fit_cls m) + 1"
            "length (band_pars m') = nshared (fit_cls m) + 1"
    and rel: "list_all2 (list_all2 (kobs_rel True)) (mb_kobs m) (mb_kobs m')"
    using assms by (simp_all add: same_setup_def model_inv_def)
  obtain r0 b0 mb0 where f0:
    "fill_bands R (fit_cls m) (model_class m) pars 0 (band_pars m) (mb_kobs m) = (r0, b0, mb0)"
    by (rule prod_cases3)
  obtain r0' b0' mb0' where f0':
    "fill_bands R (fit_cls m) (model_class m) pars 0 (band_pars m') (mb_kobs m') = (r0', b0', mb0')"
    by (rule prod_cases3)
  note fb = fill_bands_indep[OF rel lb, of R "model_class m" pars 0]
  have r0: "r0' = r0" and mb0: "r0 = None \<Longrightarrow> list_all2 (list_all2 kobs_eqm) mb0 mb0'"
    using fb f0 f0' by simp_all
  define conv where "conv = (\<lambda>r. case r of None \<Rightarrow> None
      | Some e \<Rightarrow> if is_RuntimeError e then Some GMixRangeError else Some e)"
  define r where "r = conv r0"
  define m1 where "m1 = m\<lparr>band_pars := b0, mb_kobs := mb0\<rparr>"
  define m1' where "m1' = m'\<lparr>band_pars := b0', mb_kobs := mb0'\<rparr>"
  have f: "fill_models R m pars = (r, m1)"
    by (simp add: fill_models_def f0 r_def m1_def conv_def)
  have f': "fill_models R m' pars = (r, m1')"
    by (simp add: fill_models_def c f0' r0 r_def m1'_def conv_def)
  have "r = None \<Longrightarrow> r0 = None"
    by (cases r0) (simp_all add: r_def conv_def split: if_splits)
  then have mm: "r = None \<Longrightarrow> list_all2 (list_all2 kobs_eqm) (mb_kobs m1) (mb_kobs m1')"
    using mb0 by (simp add: m1_def m1'_def)
  have s1: "same_setup True m m1" using fill_models_same_setup[of True m R pars] f by simp
  have s1': "same_setup True m' m1'" using fill_models_same_setup[of True m' R pars] f' by simp
  have pe: "prior m1' = prior m1" "n_prior_pars m1' = n_prior_pars m1" "nband m1' = nband m1"
    using s1 s1' assms(2) by (simp_all add: same_setup_def)
  show ?thesis
  proof (cases r)
    case (Some e)
    with f f' show ?thesis by (simp add: calc_fdiff_try_def)
  next
    case None
    note mm' = mm[OF None]
    have fp: "fill_priors m1' pars fd = fill_priors m1 pars fd"
      using pe(1,2) by (rule fill_priors_indep)
    show ?thesis
    proof (cases "fill_priors m1 pars fd")
      case (Inl e)
      with f f' None fp show ?thesis by (simp add: calc_fdiff_try_def)
    next
      case (Inr x)
      obtain fd0 st where x: "x = (fd0, st)" by (cases x)
      have fbs: "fst (fdiff_bands [0..<nband m1] fd0 st (mb_kobs m1'))
              = fst (fdiff_bands [0..<nband m1] fd0 st (mb_kobs m1))"
        using mm' by (rule fdiff_bands_indep)
      obtain q mbq where q: "fdiff_bands [0..<nband m1] fd0 st (mb_kobs m1) = (q, mbq)"
        by (cases "fdiff_bands [0..<nband m1] fd0 st (mb_kobs m1)")
      obtain q' mbq' where q': "fdiff_bands [0..<nband m1] fd0 st (mb_kobs m1') = (q', mbq')"
        by (cases "fdiff_bands [0..<nband m1] fd0 st (mb_kobs m1')")
      have qq: "q' = q" using fbs q q' by simp
      have a: "fst (calc_fdiff_try R m pars fd) = map_sum id fst q"
        using f None Inr x q by (cases q) (auto simp: calc_fdiff_try_def)
      have b: "fst (calc_fdiff_try R m' pars fd) = map_sum id fst q"
        using f' None fp Inr x q' qq pe(3) by (cases q) (auto simp: calc_fdiff_try_def)
      show ?thesis using a b by simp
    qed
  qed
qed

lemma calc_fdiff_indep:
  assumes "model_inv m" and "same_setup True m m'"
  shows "fst (calc_fdiff R L m' pars) = fst (calc_fdiff R L m pars)"
proof -
  have fs: "fdiff_size m' = fdiff_size m" using assms(2) by (simp add: same_setup_def)
  let ?fd = "replicate (fdiff_size m) (0::real)"
  obtain q mq where q: "calc_fdiff_try R m pars ?fd = (q, mq)"
    by (cases "calc_fdiff_try R m pars ?fd")
  obtain q' mq' where q': "calc_fdiff_try R m' pars ?fd = (q', mq')"
    by (cases "calc_fdiff_try R m' pars ?fd")
  have qq: "q' = q" using calc_fdiff_try_indep[OF assms, of R pars ?fd] q q' by simp
  show ?thesis
    using q q' qq fs by (cases q) (simp_all add: calc_fdiff_def Let_def)
qed

lemma later_same_setup: "later R L m m' \<Longrightarrow> same_setup True m m'"
proof (induction rule: later.induct)
  case now
  show ?case by (rule same_setup_refl)
next
  case (then_calc_fdiff m' pars)
  then show ?case using calc_fdiff_same_setup same_setup_trans by blast
qed

lemma calc_fdiff_later:
  assumes "constructed R L m" and "later R L m m'"
  shows "fst (calc_fdiff R L m' pars) = fst (calc_fdiff R L m pars)"
  using calc_fdiff_indep[OF constructed_inv[OF assms(1)] later_same_setup[OF assms(2)]] .


section \<open>Residual assembler: the layout of the residual vector\<close>

lemma setslice_exact:
  assumes "st + length v \<le> length fd"
  shows "setslice fd st (st + length v) v = Inr (take st fd @ v @ drop (st + length v) fd)"
  using assms by (simp add: setslice_def Let_def min_def max_def)

lemma setslice_after_prefix:
  assumes "length a = st" and "length v \<le> length z"
  shows "setslice (a @ z) st (st + length v) v = Inr ((a @ v) @ drop (length v) z)"
proof -
  have "st + length v \<le> length (a @ z)" using assms by simp
  then have "setslice (a @ z) st (st + length v) v
               = Inr (take st (a @ z) @ v @ drop (st + length v) (a @ z))"
    by (rule setslice_exact)
  moreover have "take st (a @ z) = a" using assms(1) by simp
  moreover have "drop (st + length v) (a @ z) = drop (length v) z" using assms(1) by simp
  ultimately show ?thesis by simp
qed

lemma normalized_diff_length:
  assumes "length (kimage k) = length (kmodel k)" and "length (ierr k) = length (kmodel k)"
  shows "length (normalized_diff k) = length (kimage k)"
  using assms by (simp add: normalized_diff_def)

lemma fdiff_kobs_layout:
  assumes "length (kmodel k) = length (kimage k)" and "length (scratch k) = length (kimage k)"
    and "length (ierr k) = length (kimage k)"
    and "length a = st" and "2 * length (kimage k) \<le> length z"
  shows "fst (fdiff_kobs (a @ z) st k)
           = Inr ((a @ map Re (normalized_diff k) @ map Im (normalized_diff k))
                    @ drop (2 * length (kimage k)) z,
                  st + 2 * length (kimage k))"
proof -
  let ?n = "length (kimage k)"
  let ?nd = "normalized_diff k"
  have ln: "length ?nd = ?n" using assms(1,3) by (simp add: normalized_diff_length)
  have lre: "length (map Re ?nd) = ?n" and lim: "length (map Im ?nd) = ?n" using ln by simp_all
  have "setslice (a @ z) st (st + length (map Re ?nd)) (map Re ?nd)
          = Inr ((a @ map Re ?nd) @ drop (length (map Re ?nd)) z)"
    using assms(4,5) lre by (intro setslice_after_prefix) simp_all
  then have s1: "setslice (a @ z) st (st + ?n) (map Re ?nd) = Inr ((a @ map Re ?nd) @ drop ?n z)"
    using lre by simp
  have "setslice ((a @ map Re ?nd) @ drop ?n z) (st + ?n) ((st + ?n) + length (map Im ?nd))
          (map Im ?nd)
          = Inr (((a @ map Re ?nd) @ map Im ?nd) @ drop (length (map Im ?nd)) (drop ?n z))"
    using assms(4,5) lre lim by (intro setslice_after_prefix) simp_all
  then have s2: "setslice ((a @ map Re ?nd) @ drop ?n z) (st + ?n) (st + ?n + ?n) (map Im ?nd)
          = Inr ((a @ map Re ?nd @ map Im ?nd) @ drop (2 * ?n) z)"
    using lim by (simp add: mult_2)
  have "fdiff_kobs (a @ z) st k =
     (Inr ((a @ map Re ?nd @ map Im ?nd) @ drop (2 * ?n) z, st + ?n + ?n), k\<lparr>scratch := ?nd\<rparr>)"
    using assms(1-3) s1 s2 by (simp add: fdiff_kobs_good Let_def)
  then show ?thesis by (simp add: mult_2)
qed

lemma fdiff_epochs_layout:
  assumes "list_all (\<lambda>k. length (kmodel k) = length (kimage k) \<and>
                         length (scratch k) = length (kimage k) \<and>
                         length (ierr k) = length (kimage k)) ks"
    and "length a = st"
    and "2 * sum_list (map (\<lambda>k. length (kimage k)) ks) \<le> length z"
  shows "fst (fdiff_epochs (a @ z) st ks)
           = Inr ((a @ concat (map (\<lambda>k. map Re (normalized_diff k) @ map Im (normalized_diff k)) ks))
                    @ drop (2 * sum_list (map (\<lambda>k. length (kimage k)) ks)) z,
                  st + 2 * sum_list (map (\<lambda>k. length (kimage k)) ks))"
  using assms
proof (induction ks arbitrary: a st z)
  case Nil
  then show ?case by simp
next
  case (Cons k ks)
  let ?n = "length (kimage k)"
  let ?r = "map Re (normalized_diff k) @ map Im (normalized_diff k)"
  let ?s = "sum_list (map (\<lambda>k. length (kimage k)) ks)"
  let ?lay = "concat (map (\<lambda>k. map Re (normalized_diff k) @ map Im (normalized_diff k)) ks)"
  have ok: "length (kmodel k) = length (kimage k)" "length (scratch k) = length (kimage k)"
    "length (ierr k) = length (kimage k)"
    using Cons.prems(1) by simp_all
  have rest: "list_all (\<lambda>k. length (kmodel k) = length (kimage k) \<and>
                         length (scratch k) = length (kimage k) \<and>
                         length (ierr k) = length (kimage k)) ks"
    using Cons.prems(1) by simp
  have bound: "2 * ?n \<le> length z" and bound2: "2 * ?s \<le> length (drop (2 * ?n) z)"
    using Cons.prems(3) by simp_all
  have lr: "length ?r = 2 * ?n" using ok by (simp add: normalized_diff_length)
  have step: "fst (fdiff_kobs (a @ z) st k) = Inr ((a @ ?r) @ drop (2 * ?n) z, st + 2 * ?n)"
    using fdiff_kobs_layout[OF ok Cons.prems(2) bound] by simp
  obtain k' where kk: "fdiff_kobs (a @ z) st k = (Inr ((a @ ?r) @ drop (2 * ?n) z, st + 2 * ?n), k')"
    using step by (cases "fdiff_kobs (a @ z) st k") simp
  have la: "length (a @ ?r) = st + 2 * ?n" using Cons.prems(2) lr by simp
  have ih: "fst (fdiff_epochs ((a @ ?r) @ drop (2 * ?n) z) (st + 2 * ?n) ks)
           = Inr (((a @ ?r) @ ?lay) @ drop (2 * ?s) (drop (2 * ?n) z), st + 2 * ?n + 2 * ?s)"
    using rest la bound2 by (rule Cons.IH)
  obtain q ks' where ee: "fdiff_epochs ((a @ ?r) @ drop (2 * ?n) z) (st + 2 * ?n) ks = (q, ks')"
    by (cases "fdiff_epochs ((a @ ?r) @ drop (2 * ?n) z) (st + 2 * ?n) ks")
  have q: "q = Inr (((a @ ?r) @ ?lay) @ drop (2 * ?s) (drop (2 * ?n) z), st + 2 * ?n + 2 * ?s)"
    using ih ee by simp
  have res: "fst (fdiff_epochs (a @ z) st (k # ks)) = q"
    using kk ee by simp
  have d: "drop (2 * ?s) (drop (2 * ?n) z) = drop (2 * (?n + ?s)) z"
    by (simp add: ac_simps distrib_left)
  have n: "st + 2 * ?n + 2 * ?s = st + 2 * (?n + ?s)" by simp
  show ?case unfolding res q d n by simp
qed

lemma epochs_layout_length:
  assumes "list_all (\<lambda>k. length (kmodel k) = length (kimage k) \<and>
                         length (scratch k) = length (kimage k) \<and>
                         length (ierr k) = length (kimage k)) ks"
  shows "length (concat (map (\<lambda>k. map Re (normalized_diff k) @ map Im (normalized_diff k)) ks))
           = 2 * sum_list (map (\<lambda>k. length (kimage k)) ks)"
  using assms by (induction ks) (simp_all add: normalized_diff_length)

lemma fdiff_bands_layout:
  assumes "n = length mb - i"
    and "list_all (list_all (\<lambda>k. length (kmodel k) = length (kimage k) \<and>
                         length (scratch k) = length (kimage k) \<and>
                         length (ierr k) = length (kimage k))) (drop i mb)"
    and "length a = st"
    and "2 * sum_list (map (\<lambda>k. length (kimage k)) (concat (drop i mb))) \<le> length z"
  shows "fst (fdiff_bands [i..<length mb] (a @ z) st mb)
           = Inr (fdiff_layout a (drop i mb)
                    @ drop (2 * sum_list (map (\<lambda>k. length (kimage k)) (concat (drop i mb)))) z,
                  st + 2 * sum_list (map (\<lambda>k. length (kimage k)) (concat (drop i mb))))"
  using assms
proof (induction n arbitrary: i a st z mb)
  case 0
  then have "[i..<length mb] = []" and "drop i mb = []" by simp_all
  then show ?case by (simp add: fdiff_layout_def)
next
  case (Suc n)
  let ?ok = "\<lambda>k. length (kmodel k) = length (kimage k) \<and>
                  length (scratch k) = length (kimage k) \<and>
                  length (ierr k) = length (kimage k)"
  let ?lay = "\<lambda>ks. concat (map (\<lambda>k. map Re (normalized_diff k) @ map Im (normalized_diff k)) ks)"
  let ?sz = "\<lambda>ks. sum_list (map (\<lambda>k. length (kimage k)) ks)"
  have i: "i < length mb" using Suc.prems(1) by simp
  have upt: "[i..<length mb] = i # [Suc i..<length mb]" using i by (rule upt_conv_Cons)
  have dr: "drop i mb = mb ! i # drop (Suc i) mb" using i by (simp add: Cons_nth_drop_Suc)
  have ok1: "list_all ?ok (mb ! i)" and ok2: "list_all (list_all ?ok) (drop (Suc i) mb)"
    using Suc.prems(2) dr by simp_all
  have b1: "2 * ?sz (mb ! i) \<le> length z"
    and b2: "2 * ?sz (concat (drop (Suc i) mb)) \<le> length (drop (2 * ?sz (mb ! i)) z)"
    using Suc.prems(4) dr by simp_all
  have ep: "fst (fdiff_epochs (a @ z) st (mb ! i))
           = Inr ((a @ ?lay (mb ! i)) @ drop (2 * ?sz (mb ! i)) z, st + 2 * ?sz (mb ! i))"
    using ok1 Suc.prems(3) b1 by (rule fdiff_epochs_layout)
  obtain kl' where e: "fdiff_epochs (a @ z) st (mb ! i)
           = (Inr ((a @ ?lay (mb ! i)) @ drop (2 * ?sz (mb ! i)) z, st + 2 * ?sz (mb ! i)), kl')"
    using ep by (cases "fdiff_epochs (a @ z) st (mb ! i)") simp
  let ?mb' = "mb[i := kl']"
  have lm: "length ?mb' = length mb" by simp
  have dm: "drop (Suc i) ?mb' = drop (Suc i) mb" by simp
  have la: "length (a @ ?lay (mb ! i)) = st + 2 * ?sz (mb ! i)"
    using Suc.prems(3) epochs_layout_length[OF ok1] by simp
  have n: "n = length ?mb' - Suc i" using Suc.prems(1) by simp
  have ih: "fst (fdiff_bands [Suc i..<length ?mb'] ((a @ ?lay (mb ! i)) @ drop (2 * ?sz (mb ! i)) z)
                   (st + 2 * ?sz (mb ! i)) ?mb')
           = Inr (fdiff_layout (a @ ?lay (mb ! i)) (drop (Suc i) ?mb')
                    @ drop (2 * ?sz (concat (drop (Suc i) ?mb'))) (drop (2 * ?sz (mb ! i)) z),
                  st + 2 * ?sz (mb ! i) + 2 * ?sz (concat (drop (Suc i) ?mb')))"
    using n _ la _
  proof (rule Suc.IH)
    show "list_all (list_all ?ok) (drop (Suc i) ?mb')" using ok2 dm by simp
    show "2 * ?sz (concat (drop (Suc i) ?mb')) \<le> length (drop (2 * ?sz (mb ! i)) z)"
      using b2 dm by simp
  qed
  have res: "fst (fdiff_bands [i..<length mb] (a @ z) st mb)
           = fst (fdiff_bands [Suc i..<length ?mb'] ((a @ ?lay (mb ! i)) @ drop (2 * ?sz (mb ! i)) z)
                   (st + 2 * ?sz (mb ! i)) ?mb')"
    using i e by (simp add: upt getitem_def del: upt.simps)
  have l: "fdiff_layout (a @ ?lay (mb ! i)) (drop (Suc i) mb) = fdiff_layout a (drop i mb)"
    by (simp add: fdiff_layout_def dr)
  have d: "drop (2 * ?sz (concat (drop (Suc i) mb))) (drop (2 * ?sz (mb ! i)) z)
             = drop (2 * ?sz (concat (drop i mb))) z"
    by (simp add: dr ac_simps distrib_left)
  have s: "st + 2 * ?sz (mb ! i) + 2 * ?sz (concat (drop (Suc i) mb))
             = st + 2 * ?sz (concat (drop i mb))"
    by (simp add: dr)
  show ?case unfolding res ih dm l d s ..
qed

lemma kobs_rel_weights:
  assumes "list_all2 (list_all2 (kobs_rel True)) mb mb'"
    and "list_all (list_all (\<lambda>k. length (weight k) = length (kimage k))) mb"
  shows "list_all (list_all (\<lambda>k. length (weight k) = length (kimage k))) mb'"
  using assms
proof (induction mb mb' rule: list_all2_induct)
  case Nil
  show ?case by simp
next
  case (Cons kl mb kl' mb')
  have "list_all (\<lambda>k. length (weight k) = length (kimage k)) kl \<Longrightarrow>
        list_all (\<lambda>k. length (weight k) = length (kimage k)) kl'"
    using Cons.hyps(1) by (induction kl kl' rule: list_all2_induct) (auto simp: kobs_rel_def)
  with Cons show ?case by simp
qed

lemma fill_priors_layout:
  assumes "prior_terms m pars = Inr pterms" and "model_inv m"
  shows "fill_priors m pars (replicate (fdiff_size m) 0)
           = Inr (pterms @ replicate (2 * totpix m) 0, length pterms)"
proof (cases "prior m")
  case None
  then have "pterms = []" using assms(1) by (simp add: prior_terms_def)
  moreover have "n_prior_pars m = 0"
    using assms(2) None by (cases "fit_cls m") (auto simp: model_inv_def set_n_prior_pars_def)
  moreover have "fdiff_size m = n_prior_pars m + 2 * totpix m"
    using assms(2) by (simp add: model_inv_def)
  ultimately show ?thesis using None by (simp add: fill_priors_def)
next
  case (Some pr)
  from assms(1) Some obtain pen where pen: "pr pars = Inr pen"
    and pt: "pterms = map pen [0..<n_prior_pars m]"
    by (auto simp: prior_terms_def split: sum.splits)
  have lp: "length pterms = n_prior_pars m" using pt by simp
  have fs: "replicate (fdiff_size m) (0::real)
              = [] @ replicate (n_prior_pars m + 2 * totpix m) 0"
    using assms(2) by (simp add: model_inv_def)
  have "setslice ([] @ replicate (n_prior_pars m + 2 * totpix m) (0::real)) 0 (0 + length pterms) pterms
          = Inr (([] @ pterms) @ drop (length pterms) (replicate (n_prior_pars m + 2 * totpix m) 0))"
    using lp by (intro setslice_after_prefix) simp_all
  then have "setslice (replicate (fdiff_size m) 0) 0 (n_prior_pars m) pterms
          = Inr (pterms @ replicate (2 * totpix m) 0)"
    using lp fs by simp
  then show ?thesis using Some pen pt lp by (simp add: fill_priors_def)
qed

lemma calc_fdiff_layout:
  assumes "model_inv m"
    and "list_all (list_all (\<lambda>k. length (weight k) = length (kimage k))) (mb_kobs m)"
    and "fill_models R m pars = (None, m1)"
    and "prior_terms m pars = Inr pterms"
  shows "fst (calc_fdiff R L m pars) = Inr (fdiff_layout pterms (mb_kobs m1))"
proof -
  let ?ok = "\<lambda>k. length (kmodel k) = length (kimage k) \<and>
                  length (scratch k) = length (kimage k) \<and>
                  length (ierr k) = length (kimage k)"
  let ?sz = "sum_list (map (\<lambda>k. length (kimage k)) (concat (mb_kobs m1)))"
  let ?z = "replicate (2 * totpix m1) (0::real)"
  have s1: "same_setup True m m1" using fill_models_same_setup[of True m R pars] assms(3) by simp
  have inv1: "model_inv m1" using assms(1) s1 by (rule model_inv_same_setup)
  have rel: "list_all2 (list_all2 (kobs_rel True)) (mb_kobs m) (mb_kobs m1)"
    using s1 by (simp add: same_setup_def)
  have w1: "list_all (list_all (\<lambda>k. length (weight k) = length (kimage k))) (mb_kobs m1)"
    using rel assms(2) by (rule kobs_rel_weights)
  have b1: "list_all (list_all (\<lambda>k. length (kmodel k) = length (kimage k) \<and>
                            length (scratch k) = length (kimage k) \<and>
                            length (ierr k) = length (weight k))) (mb_kobs m1)"
    using inv1 by (simp add: model_inv_def)
  have ok: "list_all (list_all ?ok) (mb_kobs m1)"
    using w1 b1 by (auto simp: list_all_iff)
  have pp: "prior m1 = prior m" "n_prior_pars m1 = n_prior_pars m"
    using s1 by (simp_all add: same_setup_def)
  have "prior_terms m1 pars = prior_terms m pars"
    unfolding prior_terms_def pp ..
  then have pt1: "prior_terms m1 pars = Inr pterms" using assms(4) by simp
  have fp: "fill_priors m1 pars (replicate (fdiff_size m1) 0) = Inr (pterms @ ?z, length pterms)"
    using pt1 inv1 by (rule fill_priors_layout)
  have fs: "fdiff_size m1 = fdiff_size m" using s1 by (simp add: same_setup_def)
  have nb: "nband m1 = length (mb_kobs m1)" and tp: "totpix m1 = ?sz"
    using inv1 by (simp_all add: model_inv_def)
  have "fst (fdiff_bands [0..<length (mb_kobs m1)] (pterms @ ?z) (length pterms) (mb_kobs m1))
           = Inr (fdiff_layout pterms (drop 0 (mb_kobs m1))
                    @ drop (2 * sum_list (map (\<lambda>k. length (kimage k))
                                            (concat (drop 0 (mb_kobs m1))))) ?z,
                  length pterms + 2 * sum_list (map (\<lambda>k. length (kimage k))
                                            (concat (drop 0 (mb_kobs m1)))))"
    using ok tp by (intro fdiff_bands_layout[where n = "length (mb_kobs m1) - 0"]) simp_all
  then have fb: "fst (fdiff_bands [0..<nband m1] (pterms @ ?z) (length pterms) (mb_kobs m1))
           = Inr (fdiff_layout pterms (mb_kobs m1), length pterms + 2 * ?sz)"
    using nb tp by simp
  obtain mb2 where fb2: "fdiff_bands [0..<nband m1] (pterms @ ?z) (length pterms) (mb_kobs m1)
           = (Inr (fdiff_layout pterms (mb_kobs m1), length pterms + 2 * ?sz), mb2)"
    using fb by (cases "fdiff_bands [0..<nband m1] (pterms @ ?z) (length pterms) (mb_kobs m1)") simp
  have "calc_fdiff_try R m pars (replicate (fdiff_size m) 0)
          = (Inr (fdiff_layout pterms (mb_kobs m1)), m1\<lparr>mb_kobs := mb2\<rparr>)"
    using assms(3) fp fs fb2 by (simp add: calc_fdiff_try_def)
  then show ?thesis by (simp add: calc_fdiff_def Let_def)
qed

text \<open>
  C6. For a constructed fit model, \<open>calc_fdiff\<close> returns for a parameter vector
  the same residual vector (or raises the same exception) whenever it is called
  again, whatever calls of \<open>calc_fdiff\<close> came in between; and when the models
  can be filled and the prior evaluated (the weight arrays having the data
  arrays' sizes), the vector is the prior terms, then for each band in
  increasing index order, for each epoch in list order, the real part of
  (model - data) / error followed by its imaginary part.
\<close>

theorem calc_fdiff_deterministic_layout:
  assumes "constructed R L m"
  shows "(later R L m m' \<longrightarrow> fst (calc_fdiff R L m' pars) = fst (calc_fdiff R L m pars)) \<and>
         (list_all (list_all (\<lambda>k. length (weight k) = length (kimage k))) (mb_kobs m) \<longrightarrow>
          fill_models R m pars = (None, m1) \<longrightarrow> prior_terms m pars = Inr pterms \<longrightarrow>
          fst (calc_fdiff R L m pars) = Inr (fdiff_layout pterms (mb_kobs m1)))"
proof -
  have inv: "model_inv m" using assms by (rule constructed_inv)
  have a: "fst (calc_fdiff R L m' pars) = fst (calc_fdiff R L m pars)" if "later R L m m'"
    using assms that by (rule calc_fdiff_later)
  have b: "fst (calc_fdiff R L m pars) = Inr (fdiff_layout pterms (mb_kobs m1))"
    if "list_all (list_all (\<lambda>k. length (weight k) = length (kimage k))) (mb_kobs m)"
      and "fill_models R m pars = (None, m1)" and "prior_terms m pars = Inr pterms"
    using inv that by (rule calc_fdiff_layout)
  show ?thesis using a b by blast
qed

theorem calc_fdiff_deterministic_layout_witness:
  "fst (calc_fdiff example_renderer 0
          (snd (calc_fdiff example_renderer 0 example_model2 [0, 0, 0, 0, 3 / 10, 3, 4]))
          [0, 0, 0, 0, 3 / 10, 3, 4])
     = fst (calc_fdiff example_renderer 0 example_model2 [0, 0, 0, 0, 3 / 10, 3, 4]) \<and>
   fst (calc_fdiff example_renderer 0 example_model2 [0, 0, 0, 0, 3 / 10, 3, 4])
     = Inr (fdiff_layout []
              (mb_kobs (snd (fill_models example_renderer example_model2 [0, 0, 0, 0, 3 / 10, 3, 4])))) \<and>
   fst (calc_fdiff example_renderer 0 example_model2 [0, 0, 0, 0, 3 / 10, 3, 4])
     = Inr [2, 0, - 2, 0, 3, 0, - 2, 0]"
proof -
  let ?P = "[0, 0, 0, 0, 3 / 10, 3, 4] :: real list"
  let ?m' = "snd (calc_fdiff example_renderer 0 example_model2 ?P)"
  let ?m1 = "snd (fill_models example_renderer example_model2 ?P)"
  have l: "later example_renderer 0 example_model2 ?m'"
    by (rule later.then_calc_fdiff[OF later.now])
  have "fst (fill_models example_renderer example_model2 ?P) = None"
    by (simp add: calc_defs eval_defs)
  then have f: "fill_models example_renderer example_model2 ?P = (None, ?m1)"
    by (metis prod.collapse)
  have w: "list_all (list_all (\<lambda>k. length (weight k) = length (kimage k))) (mb_kobs example_model2)"
    by (simp add: example_model2_def example_kobs_def)
  have p: "prior_terms example_model2 ?P = Inr []"
    by (simp add: prior_terms_def example_model2_def)
  show ?thesis
    using calc_fdiff_deterministic_layout [OF example_model2_constructed [of 0], of ?m' ?P ?m1 "[]"]
      l f w p example_calc_fdiff [of 0]
    by simp
qed


text \<open>
  A call of \<open>calc_s2n_r\<close> in between is another matter: it leaves the model
  images recentred, and \<open>calc_fdiff\<close> then draws into an image of another
  geometry.  On the off-centre example the vector changes.
\<close>

lemma calc_fdiff_after_calc_s2n_r_example:
  "map_sum id
     (\<lambda>m. (fst (calc_fdiff example_renderer 0 m [0, 0, 0, 0, 3 / 10, 3]),
           fst (calc_fdiff example_renderer 0
                  (snd (calc_s2n_r example_renderer m [0, 0, 0, 0, 3 / 10, 3]))
                  [0, 0, 0, 0, 3 / 10, 3])))
     (construct example_renderer GalsimFitModel example_obs_off ''gauss''
        [0, 0, 0, 0, 3 / 10, 3] None)
   = Inr (Inr [5, 0, - 2, 0], Inr [2, 0, - 2, 0])"
  by (simp add: example_obs_off_def calc_s2n_r_def calc_s2n_sum_def s2n_kobs_def calc_defs
        eval_defs)

section \<open>Fit-quality statistics: the round signal-to-noise\<close>

lemma round_pars_update:
  assumes "4 \<le> length bp"
  shows "setslice_scalar bp 2 4 (0::real) = bp[2 := 0, 3 := 0]"
proof (rule nth_equalityI)
  show "length (setslice_scalar bp 2 4 0) = length (bp[2 := 0, 3 := 0])"
    by (simp add: setslice_scalar_length)
  fix i assume "i < length (setslice_scalar bp 2 4 0)"
  then have i: "i < length bp" by (simp add: setslice_scalar_length)
  have s: "setslice_scalar bp 2 4 (0::real) = take 2 bp @ replicate 2 0 @ drop 4 bp"
    using assms by (simp add: setslice_scalar_def Let_def min_def max_def)
  consider "i < 2" | "i = 2" | "i = 3" | "4 \<le> i" by linarith
  then show "setslice_scalar bp 2 4 0 ! i = bp[2 := 0, 3 := 0] ! i"
  proof cases
    case 1
    then show ?thesis using i assms by (simp add: s nth_append)
  next
    case 2
    then show ?thesis using i assms by (simp add: s nth_append)
  next
    case 3
    then show ?thesis using i assms by (simp add: s nth_append)
  next
    case 4
    then have n: "\<not> i < 2" "\<not> i - 2 < 2" "i - 2 - 2 = i - 4" by simp_all
    have "(take 2 bp @ replicate 2 0 @ drop 4 bp) ! i = drop 4 bp ! (i - 4)"
      using assms n by (simp add: nth_append)
    then show ?thesis using 4 i assms by (simp add: s)
  qed
qed

lemma weighted_power_steps:
  assumes "length zs = length ws"
  shows "sum_list (map Re
           (map2 (\<lambda>z w. Complex (Re z) (Im z * w))
              (map2 (\<lambda>z w. Complex (Re z * w) (Im z))
                 (map (\<lambda>z. Complex (Re z * Re z) (Im z * Im z)) zs) ws) ws)) +
         sum_list (map Im
           (map2 (\<lambda>z w. Complex (Re z) (Im z * w))
              (map2 (\<lambda>z w. Complex (Re z * w) (Im z))
                 (map (\<lambda>z. Complex (Re z * Re z) (Im z * Im z)) zs) ws) ws))
         = weighted_power ws zs"
  using assms unfolding weighted_power_def
  by (induction zs ws rule: list_induct2) simp_all

lemma s2n_kobs_power:
  assumes "4 \<le> length bp" and "length (kmodel k) = length (kimage k)"
    and "length (weight k) = length (kimage k)"
  shows "fst (s2n_kobs R c mc bp s k)
           = (case epoch_power R c mc bp k of Inl e \<Rightarrow> Inl e | Inr x \<Rightarrow> Inr (s + x))"
proof -
  let ?n = "length (kimage k)"
  have rp: "setslice_scalar bp 2 4 (0::real) = bp[2 := 0, 3 := 0]"
    using assms(1) by (rule round_pars_update)
  show ?thesis
  proof (cases "make_model R c mc (bp[2 := 0, 3 := 0])")
    case (Inl e)
    then show ?thesis by (simp add: s2n_kobs_def epoch_power_def round_kmodel_def rp)
  next
    case (Inr gal)
    show ?thesis
    proof (cases "gs_drawKImage R gal (kmodel_geom k) ?n")
      case (Inl e)
      with Inr assms(2) show ?thesis
        by (simp add: s2n_kobs_def epoch_power_def round_kmodel_def rp)
    next
      case dr: (Inr gf)
      obtain g' f where gf: "gf = (g', f)" by (cases gf)
      let ?km = "map f [0..<?n]"
      show ?thesis
      proof (cases "case psf k of None \<Rightarrow> Inr ?km
                    | Some p \<Rightarrow> inplace GalSimValueError (\<lambda>x y. x * y) ?km p")
        case (Inl e)
        with Inr dr gf assms(2) show ?thesis
          by (simp add: s2n_kobs_def epoch_power_def round_kmodel_def rp Let_def)
      next
        case ps: (Inr km1)
        have l1: "length km1 = ?n"
          using ps by (auto split: option.splits dest: inplace_length)
        have rk: "round_kmodel R c mc bp k = Inr km1"
          using Inr dr gf ps by (simp add: round_kmodel_def)
        have pw: "sum_list (map Re
           (map2 (\<lambda>z w. Complex (Re z) (Im z * w))
              (map2 (\<lambda>z w. Complex (Re z * w) (Im z))
                 (map (\<lambda>z. Complex (Re z * Re z) (Im z * Im z)) km1) (weight k)) (weight k))) +
         sum_list (map Im
           (map2 (\<lambda>z w. Complex (Re z) (Im z * w))
              (map2 (\<lambda>z w. Complex (Re z * w) (Im z))
                 (map (\<lambda>z. Complex (Re z * Re z) (Im z * Im z)) km1) (weight k)) (weight k)))
         = weighted_power (weight k) km1"
          using l1 assms(3) by (intro weighted_power_steps) simp
        have "fst (s2n_kobs R c mc bp s k) = Inr (s + sum_list (map Re
           (map2 (\<lambda>z w. Complex (Re z) (Im z * w))
              (map2 (\<lambda>z w. Complex (Re z * w) (Im z))
                 (map (\<lambda>z. Complex (Re z * Re z) (Im z * Im z)) km1) (weight k)) (weight k))) +
         sum_list (map Im
           (map2 (\<lambda>z w. Complex (Re z) (Im z * w))
              (map2 (\<lambda>z w. Complex (Re z * w) (Im z))
                 (map (\<lambda>z. Complex (Re z * Re z) (Im z * Im z)) km1) (weight k)) (weight k))))"
          using Inr dr gf ps l1 assms(2,3)
          by (simp add: s2n_kobs_def rp Let_def inplace_def)
        then show ?thesis using pw rk by (simp add: epoch_power_def)
      qed
    qed
  qed
qed

lemma s2n_epochs_power:
  assumes "4 \<le> length bp"
    and "list_all (\<lambda>k. length (kmodel k) = length (kimage k) \<and>
                        length (weight k) = length (kimage k)) ks"
  shows "fst (s2n_epochs R c mc bp s ks)
           = (case sum_results (map (epoch_power R c mc bp) ks) of
                Inl e \<Rightarrow> Inl e | Inr x \<Rightarrow> Inr (s + x))"
  using assms(2)
proof (induction ks arbitrary: s)
  case Nil
  show ?case by simp
next
  case (Cons k ks)
  have k: "length (kmodel k) = length (kimage k)" "length (weight k) = length (kimage k)"
    and ks: "list_all (\<lambda>k. length (kmodel k) = length (kimage k) \<and>
                        length (weight k) = length (kimage k)) ks"
    using Cons.prems by simp_all
  note step = s2n_kobs_power[OF assms(1) k, of R c mc s]
  obtain r k' where kk: "s2n_kobs R c mc bp s k = (r, k')" by (cases "s2n_kobs R c mc bp s k")
  show ?case
  proof (cases "epoch_power R c mc bp k")
    case (Inl e)
    with step kk show ?thesis by simp
  next
    case (Inr x)
    with step kk have r: "r = Inr (s + x)" by simp
    obtain r2 ks' where ee: "s2n_epochs R c mc bp (s + x) ks = (r2, ks')"
      by (cases "s2n_epochs R c mc bp (s + x) ks")
    have "r2 = (case sum_results (map (epoch_power R c mc bp) ks) of
                Inl e \<Rightarrow> Inl e | Inr y \<Rightarrow> Inr (s + x + y))"
      using Cons.IH[OF ks, of "s + x"] ee by simp
    then show ?thesis
      using kk r ee Inr by (simp add: add.assoc split: sum.splits)
  qed
qed

lemma sum_results_append:
  "sum_results (xs @ ys) =
     (case sum_results xs of
        Inl e \<Rightarrow> Inl e
      | Inr x \<Rightarrow> (case sum_results ys of Inl e \<Rightarrow> Inl e | Inr y \<Rightarrow> Inr (x + y)))"
  by (induction xs) (auto split: sum.splits)

lemma s2n_bands_power:
  assumes "length buf = nshared c + 1" and "length pars = nshared c + band + length mb"
    and "list_all (list_all (\<lambda>k. length (kmodel k) = length (kimage k) \<and>
                        length (weight k) = length (kimage k))) mb"
  shows "fst (s2n_bands R c mc pars band s buf mb)
           = (case sum_results
                     (concat (map (\<lambda>(b, kobs_list).
                                     map (epoch_power R c mc (band_slice c pars b)) kobs_list)
                                (zip [band..<band + length mb] mb))) of
                Inl e \<Rightarrow> Inl e | Inr x \<Rightarrow> Inr (s + x))"
  using assms
proof (induction mb arbitrary: band s buf)
  case Nil
  show ?case by simp
next
  case (Cons kl rest)
  let ?bp = "band_slice c pars band"
  let ?ok = "\<lambda>k. length (kmodel k) = length (kimage k) \<and> length (weight k) = length (kimage k)"
  have g: "get_band_pars c buf pars band = (None, ?bp)" and l: "length ?bp = nshared c + 1"
    using Cons.prems(1,2) by (simp_all add: get_band_pars_slice)
  have l4: "4 \<le> length ?bp" using l by (cases c) (simp_all add: nshared_def)
  have okl: "list_all ?ok kl" and okr: "list_all (list_all ?ok) rest"
    using Cons.prems(3) by simp_all
  have "[band..<band + length (kl # rest)] = band # [Suc band..<Suc band + length rest]"
    using upt_conv_Cons[of band "band + length (kl # rest)"] by simp
  then have z: "zip [band..<band + length (kl # rest)] (kl # rest)
             = (band, kl) # zip [Suc band..<Suc band + length rest] rest"
    by (simp only: zip_Cons_Cons)
  let ?f = "\<lambda>(b, kobs_list). map (epoch_power R c mc (band_slice c pars b)) kobs_list"
  let ?here = "sum_results (map (epoch_power R c mc ?bp) kl)"
  let ?rest = "sum_results (concat (map ?f (zip [Suc band..<Suc band + length rest] rest)))"
  have "concat (map ?f (zip [band..<band + length (kl # rest)] (kl # rest)))
          = map (epoch_power R c mc ?bp) kl
            @ concat (map ?f (zip [Suc band..<Suc band + length rest] rest))"
    unfolding z by simp
  then have rhs: "sum_results (concat (map ?f (zip [band..<band + length (kl # rest)] (kl # rest))))
          = (case ?here of
               Inl e \<Rightarrow> Inl e
             | Inr x \<Rightarrow> (case ?rest of Inl e \<Rightarrow> Inl e | Inr y \<Rightarrow> Inr (x + y)))"
    by (simp only: sum_results_append)
  note ep = s2n_epochs_power[OF l4 okl, of R c mc s]
  obtain r kl' where e: "s2n_epochs R c mc ?bp s kl = (r, kl')"
    by (cases "s2n_epochs R c mc ?bp s kl")
  show ?case
  proof (cases ?here)
    case (Inl e0)
    with ep e have "r = Inl e0" by simp
    then have "fst (s2n_bands R c mc pars band s buf (kl # rest)) = Inl e0"
      using g e by simp
    then show ?thesis unfolding rhs Inl by simp
  next
    case (Inr x)
    with ep e have r: "r = Inr (s + x)" by simp
    have ih: "fst (s2n_bands R c mc pars (Suc band) (s + x) ?bp rest)
           = (case ?rest of Inl e \<Rightarrow> Inl e | Inr y \<Rightarrow> Inr (s + x + y))"
      using l Cons.prems(2) okr by (intro Cons.IH) simp_all
    obtain r2 b2 mb2 where bb: "s2n_bands R c mc pars (Suc band) (s + x) ?bp rest = (r2, b2, mb2)"
      by (rule prod_cases3)
    have "fst (s2n_bands R c mc pars band s buf (kl # rest)) = r2"
      using g e r bb by simp
    moreover have "r2 = (case ?rest of Inl e \<Rightarrow> Inl e | Inr y \<Rightarrow> Inr (s + x + y))"
      using ih bb by simp
    ultimately show ?thesis unfolding rhs Inr by (simp add: add.assoc split: sum.splits)
  qed
qed

lemma calc_s2n_sum_power:
  assumes "model_inv m" and "int (length pars) = npars m"
    and "list_all (list_all (\<lambda>k. length (weight k) = length (kimage k))) (mb_kobs m)"
  shows "fst (calc_s2n_sum R m pars) = model_power R m pars"
proof -
  have lb: "length (band_pars m) = nshared (fit_cls m) + 1"
    and lp: "length pars = nshared (fit_cls m) + 0 + length (mb_kobs m)"
    and bufs: "list_all (list_all (\<lambda>k. length (kmodel k) = length (kimage k) \<and>
                            length (scratch k) = length (kimage k) \<and>
                            length (ierr k) = length (weight k))) (mb_kobs m)"
    using assms(1,2) by (simp_all add: model_inv_def)
  have ok: "list_all (list_all (\<lambda>k. length (kmodel k) = length (kimage k) \<and>
                        length (weight k) = length (kimage k))) (mb_kobs m)"
    using bufs assms(3) by (auto simp: list_all_iff)
  note b = s2n_bands_power[OF lb lp ok, of R "model_class m" 0]
  obtain r buf mb where sb:
    "s2n_bands R (fit_cls m) (model_class m) pars 0 0 (band_pars m) (mb_kobs m) = (r, buf, mb)"
    by (rule prod_cases3)
  have "fst (calc_s2n_sum R m pars) = r" by (simp add: calc_s2n_sum_def sb)
  moreover have "r = model_power R m pars"
    using b sb by (simp add: model_power_def split: sum.splits)
  ultimately show ?thesis by simp
qed

lemma weighted_power_nonneg:
  assumes "\<forall>w\<in>set ws. 0 \<le> w"
  shows "0 \<le> weighted_power ws zs"
proof -
  have "0 \<le> sum_list (map2 (\<lambda>z w. Re z * Re z * w) zs ws)"
    using assms by (intro sum_list_nonneg) (auto dest!: set_zip_rightD)
  moreover have "0 \<le> sum_list (map2 (\<lambda>z w. Im z * Im z * w) zs ws)"
    using assms by (intro sum_list_nonneg) (auto dest!: set_zip_rightD)
  ultimately show ?thesis by (simp add: weighted_power_def)
qed

text \<open>
  C8. For a constructed fit model, a parameter vector of the variant's length
  and weight arrays of the data arrays' sizes, the two loops of \<open>calc_s2n_r\<close>
  accumulate the weighted model power: the sum over bands, epochs and pixels of
  the weight times the squared real part plus the weight times the squared
  imaginary part of the PSF-multiplied round model (or they raise what building
  or drawing a round model raises first).  \<open>calc_s2n_r\<close> returns the square
  root of that sum if it is strictly positive and 0 otherwise; every value it
  returns is non-negative.
\<close>

theorem calc_s2n_r_spec:
  "(constructed R L m \<longrightarrow> int (length pars) = npars m \<longrightarrow>
      list_all (list_all (\<lambda>k. length (weight k) = length (kimage k))) (mb_kobs m) \<longrightarrow>
      fst (calc_s2n_sum R m pars) = model_power R m pars \<and>
      fst (calc_s2n_r R m pars)
        = (case model_power R m pars of
             Inl e \<Rightarrow> Inl e
           | Inr p \<Rightarrow> Inr (if 0 < p then sqrt p else 0))) \<and>
   (fst (calc_s2n_sum R m pars) = Inr s \<longrightarrow>
      fst (calc_s2n_r R m pars) = Inr (if 0 < s then sqrt s else 0)) \<and>
   (fst (calc_s2n_r R m pars) = Inr v \<longrightarrow> 0 \<le> v) \<and>
   (fst (calc_s2n_sum R m pars) = Inl e \<longrightarrow> fst (calc_s2n_r R m pars) = Inl e)"
proof -
  have r: "fst (calc_s2n_r R m pars)
             = (case fst (calc_s2n_sum R m pars) of
                  Inl e \<Rightarrow> Inl e
                | Inr p \<Rightarrow> Inr (if 0 < p then sqrt p else 0))"
    by (auto simp: calc_s2n_r_def split: prod.splits sum.splits)
  have a: "fst (calc_s2n_sum R m pars) = model_power R m pars"
    if "constructed R L m" and "int (length pars) = npars m"
      and "list_all (list_all (\<lambda>k. length (weight k) = length (kimage k))) (mb_kobs m)"
    using constructed_inv[OF that(1)] that(2,3) by (rule calc_s2n_sum_power)
  have b: "fst (calc_s2n_r R m pars) = Inr v \<longrightarrow> 0 \<le> v"
    by (auto simp: r split: sum.splits if_splits)
  show ?thesis using a b by (auto simp: r)
qed

lemma example_model_power:
  "model_power example_renderer example_model2 [0, 0, 0, 0, 3 / 10, 3, 4] = Inr 25"
  by (simp add: model_power_def epoch_power_def round_kmodel_def weighted_power_def
        band_slice_def nshared_def upt_rec numeral_2_eq_2 eval_defs)

theorem calc_s2n_r_spec_witness:
  "model_power example_renderer example_model2 [0, 0, 0, 0, 3 / 10, 3, 4] = Inr 25 \<and>
   fst (calc_s2n_sum example_renderer example_model2 [0, 0, 0, 0, 3 / 10, 3, 4]) = Inr 25 \<and>
   fst (calc_s2n_r example_renderer example_model2 [0, 0, 0, 0, 3 / 10, 3, 4]) = Inr 5"
proof -
  have sq: "sqrt 25 = 5" by (rule real_sqrt_unique) simp_all
  have w: "list_all (list_all (\<lambda>k. length (weight k) = length (kimage k)))
             (mb_kobs example_model2)"
    by (simp add: example_model2_def example_kobs_def)
  have n: "int (length [0, 0, 0, 0, 3 / 10, 3, 4 :: real]) = npars example_model2"
    by (simp add: example_model2_def)
  show ?thesis
    using calc_s2n_r_spec [of example_renderer 0 example_model2 "[0, 0, 0, 0, 3 / 10, 3, 4]" 25 5
        GMixRangeError]
      example_model2_constructed [of 0] w n example_model_power sq
    by simp
qed

end
